theory Spec2Isabelle
  imports Complex_Main "HOL-Library.Word"
begin

section \<open>Batch image cropping and compression: a model of index.js\<close>

text \<open>
  The repository holds two scripts in one file. The first (lines 1-320, called variant A
  below) uses only the squoosh codec; the second (lines 321-621, variant B) crops with
  sharp and then compresses with squoosh. Both read a global \<open>CONFIG\<close>, walk the input
  directory, process each file inside a try/catch and print statistics.

  Pixel sizes and byte counts are natural numbers. File contents are lists of bytes.
  Everything the scripts obtain from outside (the file system, sharp, the squoosh image
  pool, the working directory) is a field of an environment record; a call that can
  throw returns a sum whose left injection is the thrown error.
\<close>

subsection \<open>Paths: the POSIX functions of Node's path module that the scripts call\<close>

text \<open>
  \<open>getOutputPath\<close>, \<open>getEncoder\<close> and the directory walk call \<open>path.relative\<close>,
  \<open>path.parse\<close>, \<open>path.join\<close> and \<open>path.extname\<close> of Node. These are library functions,
  modelled here as Node implements them for POSIX paths (\<open>path.posix\<close>), on strings of
  characters; the rules of Windows paths are not modelled.
\<close>

type_synonym path = string

text \<open>Splitting at the separator and joining with it.\<close>

fun split_slash :: "string \<Rightarrow> string list" where
  "split_slash [] = [[]]"
| "split_slash (c # cs) =
     (if c = CHR ''/'' then [] # split_slash cs
      else (case split_slash cs of [] \<Rightarrow> [[c]] | s # ss \<Rightarrow> (c # s) # ss))"

fun join_slash :: "string list \<Rightarrow> string" where
  "join_slash [] = []"
| "join_slash [s] = s"
| "join_slash (s # t # ss) = s @ CHR ''/'' # join_slash (t # ss)"

definition isAbsolute :: "string \<Rightarrow> bool" where
  "isAbsolute p = (p \<noteq> [] \<and> hd p = CHR ''/'')"

text \<open>
  \<open>normalizeString\<close> of Node walks the segments from left to right: an empty segment and
  \<open>.\<close> are dropped, \<open>..\<close> removes the last kept segment unless there is none or it is
  itself \<open>..\<close> (then \<open>..\<close> is kept when the path may climb above its start), any other
  segment is kept. The result is given as the list of kept segments.
\<close>

definition norm_step :: "bool \<Rightarrow> string list \<Rightarrow> string \<Rightarrow> string list" where
  "norm_step allowAboveRoot res seg =
     (if seg = [] \<or> seg = ''.'' then res
      else if seg = ''..'' then
        (if res \<noteq> [] \<and> last res \<noteq> ''..'' then butlast res
         else if allowAboveRoot then res @ [''..''] else res)
      else res @ [seg])"

definition normalizeString :: "string \<Rightarrow> bool \<Rightarrow> string list" where
  "normalizeString p allowAboveRoot = foldl (norm_step allowAboveRoot) [] (split_slash p)"

text \<open>\<open>path.normalize\<close>.\<close>

definition normalize :: "string \<Rightarrow> string" where
  "normalize p =
     (if p = [] then ''.''
      else
        let isAbs = isAbsolute p;
            trailingSeparator = (last p = CHR ''/'');
            segs = normalizeString p (\<not> isAbs)
        in if segs = [] then (if isAbs then ''/'' else if trailingSeparator then ''./'' else ''.'')
           else (if isAbs then ''/'' else []) @ join_slash segs
                @ (if trailingSeparator then ''/'' else []))"

text \<open>\<open>path.join\<close>: the non-empty arguments joined by the separator, then normalised.\<close>

definition join :: "string list \<Rightarrow> string" where
  "join args =
     (let parts = filter (\<lambda>a. a \<noteq> []) args
      in if parts = [] then ''.'' else normalize (join_slash parts))"

text \<open>
  \<open>path.resolve\<close> with one argument, against the working directory \<open>cwd\<close> of the
  process. The resolved path is given by its segments below the root.
\<close>

definition resolve :: "string \<Rightarrow> string \<Rightarrow> string list" where
  "resolve cwd p =
     (if p = [] then normalizeString (cwd @ ''/'') (\<not> isAbsolute cwd)
      else if isAbsolute p then normalizeString (p @ ''/'') False
      else normalizeString (cwd @ ''/'' @ p @ ''/'') (\<not> isAbsolute cwd))"

text \<open>
  \<open>path.relative\<close>: both paths are resolved, their common leading segments are dropped,
  every segment left of \<open>from\<close> becomes \<open>..\<close> and the segments left of \<open>to\<close> follow.
\<close>

fun strip_common :: "string list \<Rightarrow> string list \<Rightarrow> string list \<times> string list" where
  "strip_common (x # xs) (y # ys) = (if x = y then strip_common xs ys else (x # xs, y # ys))"
| "strip_common xs ys = (xs, ys)"

definition relative :: "string \<Rightarrow> string \<Rightarrow> string \<Rightarrow> string" where
  "relative cwd from to =
     (case strip_common (resolve cwd from) (resolve cwd to) of
        (fs, ts) \<Rightarrow> join_slash (map (\<lambda>_. ''..'') fs @ ts))"

text \<open>
  \<open>path.parse\<close>. Trailing separators are ignored; \<open>base\<close> is the last segment, \<open>dir\<close> is
  what stands before the separator in front of it. The extension starts at the last dot
  of \<open>base\<close>, unless there is no dot, the last dot is the first character, or \<open>base\<close> is
  \<open>..\<close>. (For an absolute path of one segment Node compares the position of the dot with
  the start of the path, not of the segment, so that \<open>/..\<close> alone is split into the name
  \<open>.\<close> and the extension \<open>.\<close>; \<open>getOutputPath\<close> parses relative paths only.)
\<close>

record parsed =
  p_root :: string
  p_dir :: string
  p_base :: string
  p_ext :: string
  p_name :: string

definition strip_trailing :: "string \<Rightarrow> string" where
  "strip_trailing s = rev (dropWhile (\<lambda>c. c = CHR ''/'') (rev s))"

definition last_segment :: "string \<Rightarrow> string" where
  "last_segment s = rev (takeWhile (\<lambda>c. c \<noteq> CHR ''/'') (rev s))"

definition before_last_segment :: "string \<Rightarrow> string" where
  "before_last_segment s = rev (tl (dropWhile (\<lambda>c. c \<noteq> CHR ''/'') (rev s)))"

definition split_ext :: "string \<Rightarrow> string \<times> string" where
  "split_ext b =
     (if b = ''..'' \<or> CHR ''.'' \<notin> set b then (b, [])
      else
        let e = rev (takeWhile (\<lambda>c. c \<noteq> CHR ''.'') (rev b));
            n = rev (tl (dropWhile (\<lambda>c. c \<noteq> CHR ''.'') (rev b)))
        in if n = [] then (b, []) else (n, CHR ''.'' # e))"

definition parse :: "string \<Rightarrow> parsed" where
  "parse p =
     (if p = [] then \<lparr>p_root = [], p_dir = [], p_base = [], p_ext = [], p_name = []\<rparr>
      else
        let isAbs = isAbsolute p;
            body = strip_trailing (if isAbs then tl p else p);
            hasDir = (CHR ''/'' \<in> set body);
            b = last_segment body;
            ne = (if isAbs \<and> \<not> hasDir \<and> b = ''..'' then (''.'', ''.'') else split_ext b)
        in \<lparr>p_root = (if isAbs then ''/'' else []),
            p_dir = (if hasDir then (if isAbs then ''/'' else []) @ before_last_segment body
                     else if isAbs then ''/'' else []),
            p_base = b,
            p_ext = snd ne,
            p_name = fst ne\<rparr>)"

definition extname :: "string \<Rightarrow> string" where
  "extname p = snd (split_ext (last_segment (strip_trailing p)))"

text \<open>ASCII lower-casing, for the comparison of extensions.\<close>

definition toLowerChar :: "char \<Rightarrow> char" where
  "toLowerChar c =
     (case map_of (zip ''ABCDEFGHIJKLMNOPQRSTUVWXYZ'' ''abcdefghijklmnopqrstuvwxyz'') c of
        Some d \<Rightarrow> d | None \<Rightarrow> c)"

definition toLowerCase :: "string \<Rightarrow> string" where
  "toLowerCase s = map toLowerChar s"

subsection \<open>CONFIG\<close>

text \<open>
  The fields of both scripts' \<open>CONFIG\<close>, nested objects flattened. Variant A reads
  \<open>cropOptions\<close>, variant B reads \<open>crop\<close>. \<open>outputFormat\<close> is \<open>None\<close> for \<open>null\<close>.
\<close>

datatype encoder = Mozjpeg | Oxipng | Webp

datatype encodeOptions =
    OxipngOptions nat
  | MozjpegOptions nat bool
  | WebpOptions nat nat

record config =
  inputDir :: path
  outputDir :: path
  encodeOptions_oxipng :: encodeOptions
  encodeOptions_mozjpeg :: encodeOptions
  encodeOptions_webp :: encodeOptions
  resize_enabled :: bool
  resize_width :: nat
  resize_height :: nat
  quant_enabled :: bool
  quant_numColors :: nat
  quant_dither :: rat
  cropOptions_enabled :: bool
  cropOptions_width :: nat
  cropOptions_keepHeight :: bool
  crop_enabled :: bool
  crop_width :: nat
  formats :: "string list"
  outputFormat :: "string option"
  maxConcurrent :: nat

text \<open>A JavaScript condition on a string that may be \<open>null\<close>: \<open>null\<close> and the empty string are false.\<close>

definition truthy :: "string option \<Rightarrow> bool" where
  "truthy s = (case s of None \<Rightarrow> False | Some t \<Rightarrow> t \<noteq> [])"

subsection \<open>getEncoder and getOutputPath\<close>

definition getEncoder :: "path \<Rightarrow> string option \<Rightarrow> encoder" where
  "getEncoder filePath customFormat =
     (let ext = toLowerCase (if truthy customFormat then the customFormat else extname filePath)
      in if ext = ''.jpg'' \<or> ext = ''.jpeg'' then Mozjpeg
         else if ext = ''.png'' then Oxipng
         else if ext = ''.webp'' then Webp
         else Oxipng)"

definition getOutputPath :: "config \<Rightarrow> string \<Rightarrow> path \<Rightarrow> string option \<Rightarrow> path" where
  "getOutputPath cfg cwd inputPath customFormat =
     (let relativePath = relative cwd (inputDir cfg) inputPath;
          parsed0 = parse relativePath;
          parsed1 = (if truthy customFormat
                     then parsed0\<lparr>p_ext := the customFormat,
                                  p_base := p_name parsed0 @ the customFormat\<rparr>
                     else parsed0)
      in join [outputDir cfg, p_dir parsed1, p_base parsed1])"

subsection \<open>Notions for the statements about paths\<close>

text \<open>
  A plain segment is one that normalisation keeps as it is; a segment is plain and has no
  separator (the name of a file or directory); a kept segment is one that can remain
  after normalisation.
\<close>

definition plain :: "string \<Rightarrow> bool" where
  "plain s = (s \<noteq> [] \<and> s \<noteq> ''.'' \<and> s \<noteq> ''..'')"

definition segment :: "string \<Rightarrow> bool" where
  "segment s = (plain s \<and> CHR ''/'' \<notin> set s)"

definition kept :: "string \<Rightarrow> bool" where
  "kept s = (s \<noteq> [] \<and> s \<noteq> ''.'')"

text \<open>The segments of the working directory.\<close>

definition cwdBase :: "string \<Rightarrow> string list" where
  "cwdBase wd = foldl (norm_step False) [] (split_slash wd)"

text \<open>\<open>p\<close> lies below \<open>rt\<close>: the resolved \<open>rt\<close> is a proper prefix of the resolved \<open>p\<close>.\<close>

definition below :: "string \<Rightarrow> path \<Rightarrow> path \<Rightarrow> bool" where
  "below wd rt p =
     (let r = resolve wd rt; q = resolve wd p
      in length r < length q \<and> take (length r) q = r)"

text \<open>An extension override, when there is one, has no separator and is not the lone dot.\<close>

definition overrideOk :: "string option \<Rightarrow> bool" where
  "overrideOk cf = (case cf of None \<Rightarrow> True | Some ov \<Rightarrow> CHR ''/'' \<notin> set ov \<and> ov \<noteq> ''.'')"

text \<open>A relative path whose extension is replaced by the override, when there is one.\<close>

definition withOverride :: "string option \<Rightarrow> string \<Rightarrow> string" where
  "withOverride cf rel =
     (if truthy cf
      then (let pr = parse rel
            in join_slash (filter (\<lambda>x. x \<noteq> []) [p_dir pr, p_name pr @ the cf]))
      else rel)"

text \<open>A dot followed by at least one character, none of them a dot or a separator.\<close>

definition isExtension :: "string \<Rightarrow> bool" where
  "isExtension ov =
     (case ov of [] \<Rightarrow> False
      | c # rest \<Rightarrow> c = CHR ''.'' \<and> rest \<noteq> [] \<and> CHR ''.'' \<notin> set rest \<and> CHR ''/'' \<notin> set rest)"

subsection \<open>Crop geometry\<close>

text \<open>
  Variant B, \<open>cropImage\<close>: sharp reports the metadata of the buffer (either size may be
  absent); the buffer is returned as it is when the width is absent, zero or not larger
  than \<open>CONFIG.crop.width\<close>, and otherwise the rectangle below is extracted.
\<close>

record metadata =
  md_width :: "nat option"
  md_height :: "nat option"

record rect =
  r_left :: nat
  r_top :: nat
  r_width :: nat
  r_height :: "nat option"

definition cropRect :: "config \<Rightarrow> metadata \<Rightarrow> rect option" where
  "cropRect cfg md =
     (case md_width md of
        None \<Rightarrow> None
      | Some w \<Rightarrow>
          if w = 0 \<or> w \<le> crop_width cfg then None
          else
            let xOffset = (w - crop_width cfg) div 2
            in Some \<lparr>r_left = xOffset, r_top = 0, r_width = crop_width cfg,
                     r_height = md_height md\<rparr>)"

text \<open>
  Variant A, lines 188-207 of \<open>compressImages\<close>: the values computed in the crop branch
  (\<open>cropWidth\<close>, \<open>cropHeight\<close>, \<open>left\<close>), or nothing when the branch is not taken.
\<close>

record cropValues =
  cv_cropWidth :: nat
  cv_cropHeight :: nat
  cv_left :: nat

definition cropBranch :: "config \<Rightarrow> nat \<Rightarrow> nat \<Rightarrow> cropValues option" where
  "cropBranch cfg originalWidth originalHeight =
     (if cropOptions_enabled cfg \<and> originalWidth > cropOptions_width cfg
      then
        let cropWidth = cropOptions_width cfg;
            cropHeight = (if cropOptions_keepHeight cfg then originalHeight else resize_height cfg);
            left = (originalWidth - cropWidth) div 2
        in Some \<lparr>cv_cropWidth = cropWidth, cv_cropHeight = cropHeight, cv_left = left\<rparr>
      else None)"

text \<open>The two \<open>CONFIG\<close> literals of the file.\<close>

definition configA :: config where
  "configA =
     \<lparr>inputDir = ''./jump'', outputDir = ''./jumpCompress'',
      encodeOptions_oxipng = OxipngOptions 2,
      encodeOptions_mozjpeg = MozjpegOptions 80 True,
      encodeOptions_webp = WebpOptions 80 4,
      resize_enabled = True, resize_width = 338, resize_height = 280,
      quant_enabled = True, quant_numColors = 128, quant_dither = 1,
      cropOptions_enabled = True, cropOptions_width = 338, cropOptions_keepHeight = True,
      crop_enabled = False, crop_width = 0,
      formats = [''.jpg'', ''.jpeg'', ''.png''], outputFormat = None, maxConcurrent = 4\<rparr>"

definition configB :: config where
  "configB =
     \<lparr>inputDir = ''./jump'', outputDir = ''./jumpCompress'',
      encodeOptions_oxipng = OxipngOptions 2,
      encodeOptions_mozjpeg = MozjpegOptions 80 True,
      encodeOptions_webp = WebpOptions 80 4,
      resize_enabled = True, resize_width = 338, resize_height = 280,
      quant_enabled = True, quant_numColors = 64, quant_dither = 1,
      cropOptions_enabled = False, cropOptions_width = 0, cropOptions_keepHeight = False,
      crop_enabled = True, crop_width = 1305,
      formats = [''.jpg'', ''.jpeg'', ''.png''], outputFormat = None, maxConcurrent = 4\<rparr>"

subsection \<open>The size reduction that is printed\<close>

text \<open>
  \<open>((1 - outputSize / inputSize) * 100).toFixed(2)\<close>. A JavaScript number is finite,
  an infinity or NaN. Division by zero does not throw: a positive number divided by zero
  is \<open>Infinity\<close> and zero divided by zero is NaN; \<open>1 - Infinity\<close> is \<open>-Infinity\<close>, and
  \<open>toFixed\<close> prints a value that is not finite by name. Finite values are kept exact
  here (the rounding of doubles is left out); \<open>toFixed(2)\<close> picks the nearest multiple
  of 1/100, the larger one on a tie, given as a count of hundredths.
\<close>

datatype number = Finite rat | PosInfinity | NegInfinity | NaN

datatype printed = Hundredths int | Text string

definition js_divide :: "nat \<Rightarrow> nat \<Rightarrow> number" where
  "js_divide a b =
     (if b = 0 then (if a = 0 then NaN else PosInfinity)
      else Finite (of_nat a / of_nat b))"

fun one_minus :: "number \<Rightarrow> number" where
  "one_minus (Finite r) = Finite (1 - r)"
| "one_minus PosInfinity = NegInfinity"
| "one_minus NegInfinity = PosInfinity"
| "one_minus NaN = NaN"

fun times100 :: "number \<Rightarrow> number" where
  "times100 (Finite r) = Finite (r * 100)"
| "times100 x = x"

fun toFixed2 :: "number \<Rightarrow> printed" where
  "toFixed2 (Finite r) = Hundredths \<lfloor>r * 100 + 1 / 2\<rfloor>"
| "toFixed2 PosInfinity = Text ''Infinity''"
| "toFixed2 NegInfinity = Text ''-Infinity''"
| "toFixed2 NaN = Text ''NaN''"

definition reduction :: "nat \<Rightarrow> nat \<Rightarrow> printed" where
  "reduction inputSize outputSize = toFixed2 (times100 (one_minus (js_divide outputSize inputSize)))"

subsection \<open>The environment\<close>

type_synonym buffer = "8 word list"

datatype error = Error string | CropError string

fun message :: "error \<Rightarrow> string" where
  "message (Error m) = m"
| "message (CropError m) = m"

record resizeOpts =
  rs_enabled :: bool
  rs_width :: nat
  rs_height :: nat
  rs_method :: "string option"
  rs_fitMethod :: "string option"
  rs_premultiply :: "bool option"
  rs_linearRGB :: "bool option"

record quantOpts =
  q_enabled :: bool
  q_numColors :: nat
  q_dither :: rat

record preprocessOpts =
  po_resize :: "resizeOpts option"
  po_quant :: "quantOpts option"

text \<open>
  What a run does to the outside and prints, as far as the properties below need it:
  the rectangle given to sharp's \<open>extract\<close>, the buffer given to \<open>ingestImage\<close>, the
  options given to \<open>preprocess\<close> and \<open>encode\<close>, the file written, the crop line of
  variant A (width and offset), the result line (the reduction) and the failure line.
\<close>

datatype event =
    E_extract rect
  | E_ingest buffer
  | E_preprocess preprocessOpts
  | E_encode encoder encodeOptions
  | E_write path buffer
  | E_log_crop nat nat
  | E_log_result nat nat printed
  | E_log_failed error

text \<open>
  \<open>writeOutput\<close> stands for \<open>ensureDir(path.dirname(outputPath))\<close> followed by
  \<open>fs.writeFileSync(outputPath, outputBuffer)\<close>; \<open>encode\<close> for \<open>image.encode\<close> followed
  by reading \<open>image.encodedWith[encoder].binary\<close>; \<open>decoded\<close> for
  \<open>await image.decoded\<close> and the width and height of the bitmap; \<open>readTree\<close> for what
  \<open>fs.readdirSync\<close> and \<open>fs.statSync\<close> find under a directory: the entries by name,
  each a file, a directory with its entries, or an entry on which one of the two calls
  throws.
\<close>

datatype entry = File | Dir "(string \<times> entry) list" | Unreadable

record 'img env =
  cwd :: string
  existsSync :: "path \<Rightarrow> bool"
  ensureDir :: "path \<Rightarrow> error + unit"
  readTree :: "path \<Rightarrow> entry"
  readFileSync :: "path \<Rightarrow> error + buffer"
  sharp_metadata :: "buffer \<Rightarrow> error + metadata"
  sharp_extract :: "buffer \<Rightarrow> rect \<Rightarrow> error + buffer"
  newImagePool :: "nat \<Rightarrow> error + unit"
  closePool :: "error + unit"
  ingestImage :: "buffer \<Rightarrow> 'img"
  decoded :: "'img \<Rightarrow> error + nat \<times> nat"
  preprocess :: "'img \<Rightarrow> preprocessOpts \<Rightarrow> error + 'img"
  encode :: "'img \<Rightarrow> encoder \<Rightarrow> encodeOptions \<Rightarrow> error + buffer"
  writeOutput :: "path \<Rightarrow> buffer \<Rightarrow> error + unit"

record stats =
  total :: nat
  success :: nat
  failed :: nat
  totalInputSize :: nat
  totalOutputSize :: nat

definition encodeOptionsOf :: "config \<Rightarrow> encoder \<Rightarrow> encodeOptions" where
  "encodeOptionsOf cfg e =
     (case e of Mozjpeg \<Rightarrow> encodeOptions_mozjpeg cfg
              | Oxipng \<Rightarrow> encodeOptions_oxipng cfg
              | Webp \<Rightarrow> encodeOptions_webp cfg)"

definition configResize :: "config \<Rightarrow> resizeOpts" where
  "configResize cfg =
     \<lparr>rs_enabled = resize_enabled cfg, rs_width = resize_width cfg, rs_height = resize_height cfg,
      rs_method = None, rs_fitMethod = None, rs_premultiply = None, rs_linearRGB = None\<rparr>"

definition configQuant :: "config \<Rightarrow> quantOpts option" where
  "configQuant cfg =
     (if quant_enabled cfg
      then Some \<lparr>q_enabled = True, q_numColors = quant_numColors cfg, q_dither = quant_dither cfg\<rparr>
      else None)"

definition hasKeys :: "preprocessOpts \<Rightarrow> bool" where
  "hasKeys opts = (\<not> (po_resize opts = None \<and> po_quant opts = None))"

text \<open>Lines 219-221 and 529-531: preprocessing runs only when an option was set.\<close>

definition preprocessStage :: "'img env \<Rightarrow> 'img \<Rightarrow> preprocessOpts \<Rightarrow> error + 'img" where
  "preprocessStage env img opts =
     (if hasKeys opts then preprocess env img opts else Inr img)"

subsection \<open>getImageFiles\<close>

text \<open>
  The recursive walk: the entries of a directory in the order of the listing, a
  directory replaced by what the walk finds in it, a file kept when its lower-cased
  extension is one of \<open>CONFIG.formats\<close>. An error of \<open>readdirSync\<close> or \<open>statSync\<close> ends
  the walk.
\<close>

fun readDir :: "string list \<Rightarrow> path \<Rightarrow> entry \<Rightarrow> error + path list"
  and readItems :: "string list \<Rightarrow> path \<Rightarrow> (string \<times> entry) list \<Rightarrow> error + path list"
where
  "readDir fm currentPath (Dir items) = readItems fm currentPath items"
| "readDir fm currentPath File = Inl (Error ''ENOTDIR'')"
| "readDir fm currentPath Unreadable = Inl (Error ''EACCES'')"
| "readItems fm currentPath [] = Inr []"
| "readItems fm currentPath ((item, e) # rest) =
     (let fullPath = join [currentPath, item]
      in case (case e of
                 Unreadable \<Rightarrow> Inl (Error ''ENOENT'')
               | Dir sub \<Rightarrow> readDir fm fullPath e
               | File \<Rightarrow> Inr (if toLowerCase (extname item) \<in> set fm then [fullPath] else [])) of
           Inl err \<Rightarrow> Inl err
         | Inr found \<Rightarrow>
             (case readItems fm currentPath rest of
                Inl err \<Rightarrow> Inl err
              | Inr others \<Rightarrow> Inr (found @ others)))"

definition getImageFiles :: "'img env \<Rightarrow> config \<Rightarrow> path \<Rightarrow> error + path list" where
  "getImageFiles env cfg dir = readDir (formats cfg) dir (readTree env dir)"

subsection \<open>Variant A: compressImages (lines 150-260)\<close>

text \<open>Lines 185-216: the preprocessing options and the crop line that is printed.\<close>

definition buildPreprocessOptsA :: "config \<Rightarrow> nat \<Rightarrow> nat \<Rightarrow> preprocessOpts \<times> event list" where
  "buildPreprocessOptsA cfg originalWidth originalHeight =
     (case cropBranch cfg originalWidth originalHeight of
        Some cv \<Rightarrow>
          (\<lparr>po_resize = Some \<lparr>rs_enabled = True, rs_width = cv_cropWidth cv,
                               rs_height = cv_cropHeight cv, rs_method = Some ''lanczos3'',
                               rs_fitMethod = Some ''stretch'', rs_premultiply = Some True,
                               rs_linearRGB = Some True\<rparr>,
            po_quant = configQuant cfg\<rparr>,
           [E_log_crop (cv_cropWidth cv) (cv_left cv)])
      | None \<Rightarrow>
          (\<lparr>po_resize = (if resize_enabled cfg then Some (configResize cfg) else None),
            po_quant = configQuant cfg\<rparr>, []))"

text \<open>The body of the \<open>try\<close> with its \<open>catch\<close>: the statistics after the file and what was done.\<close>

definition catchFailure :: "stats \<Rightarrow> event list \<Rightarrow> error \<Rightarrow> stats \<times> event list" where
  "catchFailure st evs e = (st\<lparr>failed := failed st + 1\<rparr>, evs @ [E_log_failed e])"

definition tryFileA :: "'img env \<Rightarrow> config \<Rightarrow> stats \<Rightarrow> path \<Rightarrow> stats \<times> event list" where
  "tryFileA env cfg st inputPath =
     (case readFileSync env inputPath of
        Inl e \<Rightarrow> catchFailure st [] e
      | Inr inputBuffer \<Rightarrow>
          let inputSize = length inputBuffer;
              st1 = st\<lparr>totalInputSize := totalInputSize st + inputSize\<rparr>;
              image = ingestImage env inputBuffer;
              ev1 = [E_ingest inputBuffer]
          in (case decoded env image of
               Inl e \<Rightarrow> catchFailure st1 ev1 e
             | Inr (originalWidth, originalHeight) \<Rightarrow>
                 let po = buildPreprocessOptsA cfg originalWidth originalHeight;
                     preprocessOpts = fst po;
                     ev2 = ev1 @ snd po
                           @ (if hasKeys preprocessOpts then [E_preprocess preprocessOpts] else [])
                 in (case preprocessStage env image preprocessOpts of
                      Inl e \<Rightarrow> catchFailure st1 ev2 e
                    | Inr image1 \<Rightarrow>
                        let encoder = getEncoder inputPath (outputFormat cfg);
                            encodeOptions = encodeOptionsOf cfg encoder;
                            ev3 = ev2 @ [E_encode encoder encodeOptions]
                        in (case encode env image1 encoder encodeOptions of
                             Inl e \<Rightarrow> catchFailure st1 ev3 e
                           | Inr outputBuffer \<Rightarrow>
                               let outputSize = length outputBuffer;
                                   st2 = st1\<lparr>totalOutputSize := totalOutputSize st1 + outputSize\<rparr>;
                                   outputPath = getOutputPath cfg (cwd env) inputPath (outputFormat cfg);
                                   ev4 = ev3 @ [E_write outputPath outputBuffer]
                               in (case writeOutput env outputPath outputBuffer of
                                    Inl e \<Rightarrow> catchFailure st2 ev4 e
                                  | Inr _ \<Rightarrow>
                                      (st2\<lparr>success := success st2 + 1\<rparr>,
                                       ev4 @ [E_log_result inputSize outputSize
                                                (reduction inputSize outputSize)]))))))"

text \<open>
  One round of the loop: the pool is created before the \<open>try\<close> and closed in its
  \<open>finally\<close>; an error of either leaves \<open>compressImages\<close>.
\<close>

definition iterationA :: "'img env \<Rightarrow> config \<Rightarrow> stats \<Rightarrow> path \<Rightarrow> error + stats \<times> event list" where
  "iterationA env cfg st inputPath =
     (case newImagePool env (maxConcurrent cfg) of
        Inl e \<Rightarrow> Inl e
      | Inr _ \<Rightarrow>
          let r = tryFileA env cfg st inputPath
          in (case closePool env of Inl e \<Rightarrow> Inl e | Inr _ \<Rightarrow> Inr r))"

fun loopA :: "'img env \<Rightarrow> config \<Rightarrow> stats \<Rightarrow> path list \<Rightarrow> error + stats \<times> event list" where
  "loopA env cfg st [] = Inr (st, [])"
| "loopA env cfg st (inputPath # rest) =
     (case iterationA env cfg st inputPath of
        Inl e \<Rightarrow> Inl e
      | Inr (st1, evs) \<Rightarrow>
          (case loopA env cfg st1 rest of
             Inl e \<Rightarrow> Inl e
           | Inr (st2, evs2) \<Rightarrow> Inr (st2, evs @ evs2)))"

definition initialStats :: "path list \<Rightarrow> stats" where
  "initialStats imageFiles =
     \<lparr>total = length imageFiles, success = 0, failed = 0, totalInputSize = 0, totalOutputSize = 0\<rparr>"

definition compressImagesA :: "'img env \<Rightarrow> config \<Rightarrow> path list \<Rightarrow> error + stats \<times> event list" where
  "compressImagesA env cfg imageFiles = loopA env cfg (initialStats imageFiles) imageFiles"

subsection \<open>Variant B: cropImage and compressImages (lines 450-569)\<close>

definition cropImage :: "'img env \<Rightarrow> config \<Rightarrow> buffer \<Rightarrow> (error + buffer) \<times> event list" where
  "cropImage env cfg inputBuffer =
     (case sharp_metadata env inputBuffer of
        Inl e \<Rightarrow> (Inl (CropError (message e)), [])
      | Inr md \<Rightarrow>
          (case cropRect cfg md of
             None \<Rightarrow> (Inr inputBuffer, [])
           | Some r \<Rightarrow>
               (case sharp_extract env inputBuffer r of
                  Inl e \<Rightarrow> (Inl (CropError (message e)), [E_extract r])
                | Inr cropped \<Rightarrow> (Inr cropped, [E_extract r]))))"

text \<open>Lines 503-506: the buffer is cropped only when \<open>CONFIG.crop.enabled\<close> is set.\<close>

definition cropStage :: "'img env \<Rightarrow> config \<Rightarrow> buffer \<Rightarrow> (error + buffer) \<times> event list" where
  "cropStage env cfg inputBuffer =
     (if crop_enabled cfg then cropImage env cfg inputBuffer else (Inr inputBuffer, []))"

definition buildPreprocessOptsB :: "config \<Rightarrow> preprocessOpts" where
  "buildPreprocessOptsB cfg =
     \<lparr>po_resize = (if resize_enabled cfg then Some (configResize cfg) else None),
      po_quant = configQuant cfg\<rparr>"

definition tryFileB :: "'img env \<Rightarrow> config \<Rightarrow> stats \<Rightarrow> path \<Rightarrow> stats \<times> event list" where
  "tryFileB env cfg st inputPath =
     (case readFileSync env inputPath of
        Inl e \<Rightarrow> catchFailure st [] e
      | Inr inputBuffer \<Rightarrow>
          let inputSize = length inputBuffer;
              st1 = st\<lparr>totalInputSize := totalInputSize st + inputSize\<rparr>;
              cr = cropStage env cfg inputBuffer
          in (case fst cr of
               Inl e \<Rightarrow> catchFailure st1 (snd cr) e
             | Inr processedBuffer \<Rightarrow>
                 let image = ingestImage env processedBuffer;
                     preprocessOpts = buildPreprocessOptsB cfg;
                     ev2 = snd cr @ [E_ingest processedBuffer]
                           @ (if hasKeys preprocessOpts then [E_preprocess preprocessOpts] else [])
                 in (case preprocessStage env image preprocessOpts of
                      Inl e \<Rightarrow> catchFailure st1 ev2 e
                    | Inr image1 \<Rightarrow>
                        let encoder = getEncoder inputPath (outputFormat cfg);
                            encodeOptions = encodeOptionsOf cfg encoder;
                            ev3 = ev2 @ [E_encode encoder encodeOptions]
                        in (case encode env image1 encoder encodeOptions of
                             Inl e \<Rightarrow> catchFailure st1 ev3 e
                           | Inr outputBuffer \<Rightarrow>
                               let outputSize = length outputBuffer;
                                   st2 = st1\<lparr>totalOutputSize := totalOutputSize st1 + outputSize\<rparr>;
                                   outputPath = getOutputPath cfg (cwd env) inputPath (outputFormat cfg);
                                   ev4 = ev3 @ [E_write outputPath outputBuffer]
                               in (case writeOutput env outputPath outputBuffer of
                                    Inl e \<Rightarrow> catchFailure st2 ev4 e
                                  | Inr _ \<Rightarrow>
                                      (st2\<lparr>success := success st2 + 1\<rparr>,
                                       ev4 @ [E_log_result inputSize outputSize
                                                (reduction inputSize outputSize)]))))))"

fun loopB :: "'img env \<Rightarrow> config \<Rightarrow> stats \<Rightarrow> path list \<Rightarrow> stats \<times> event list" where
  "loopB env cfg st [] = (st, [])"
| "loopB env cfg st (inputPath # rest) =
     (case tryFileB env cfg st inputPath of
        (st1, evs) \<Rightarrow> (case loopB env cfg st1 rest of (st2, evs2) \<Rightarrow> (st2, evs @ evs2)))"

definition compressImagesB :: "'img env \<Rightarrow> config \<Rightarrow> path list \<Rightarrow> error + stats \<times> event list" where
  "compressImagesB env cfg imageFiles =
     (case newImagePool env (maxConcurrent cfg) of
        Inl e \<Rightarrow> Inl e
      | Inr _ \<Rightarrow>
          let r = loopB env cfg (initialStats imageFiles) imageFiles
          in (case closePool env of Inl e \<Rightarrow> Inl e | Inr _ \<Rightarrow> Inr r))"

subsection \<open>main\<close>

text \<open>
  Both scripts' \<open>main\<close> have the same control flow; \<open>compress\<close> is the variant's
  \<open>compressImages\<close>. The result is the exit code of the process and the steps taken
  that touch the file system. \<open>process.exit\<close> ends the run at once; an error that leaves
  \<open>main\<close> reaches the \<open>catch\<close> of the last lines, which exits with 1; a run that reaches
  the end of \<open>main\<close> ends with code 0.
\<close>

datatype step = S_ensureDir path | S_scan path | S_compress "path list"

definition main ::
  "('img env \<Rightarrow> config \<Rightarrow> path list \<Rightarrow> error + stats \<times> event list) \<Rightarrow>
   'img env \<Rightarrow> config \<Rightarrow> nat \<times> step list" where
  "main compress env cfg =
     (if \<not> existsSync env (inputDir cfg) then (1, [])
      else
        case ensureDir env (outputDir cfg) of
          Inl e \<Rightarrow> (1, [S_ensureDir (outputDir cfg)])
        | Inr _ \<Rightarrow>
            (case getImageFiles env cfg (inputDir cfg) of
               Inl e \<Rightarrow> (1, [S_ensureDir (outputDir cfg), S_scan (inputDir cfg)])
             | Inr imageFiles \<Rightarrow>
                 if length imageFiles = 0
                 then (0, [S_ensureDir (outputDir cfg), S_scan (inputDir cfg)])
                 else
                   (case compress env cfg imageFiles of
                      Inl e \<Rightarrow> (1, [S_ensureDir (outputDir cfg), S_scan (inputDir cfg),
                                   S_compress imageFiles])
                    | Inr r \<Rightarrow> (0, [S_ensureDir (outputDir cfg), S_scan (inputDir cfg),
                                   S_compress imageFiles]))))"


subsection \<open>The stages of one file\<close>

text \<open>
  The stages that the \<open>try\<close> block runs for one file, in its order, without the
  statistics: the first error thrown, or nothing when every stage returns. A file fails
  at a stage when this is an error.
\<close>

definition bindE :: "'e + 'a \<Rightarrow> ('a \<Rightarrow> 'e + 'b) \<Rightarrow> 'e + 'b" where
  "bindE m f = (case m of Inl e \<Rightarrow> Inl e | Inr x \<Rightarrow> f x)"

definition stagesA :: "'img env \<Rightarrow> config \<Rightarrow> path \<Rightarrow> error + unit" where
  "stagesA env cfg inputPath =
     bindE (readFileSync env inputPath) (\<lambda>inputBuffer.
     bindE (decoded env (ingestImage env inputBuffer)) (\<lambda>wh.
     bindE (preprocessStage env (ingestImage env inputBuffer)
              (fst (buildPreprocessOptsA cfg (fst wh) (snd wh)))) (\<lambda>image1.
     bindE (encode env image1 (getEncoder inputPath (outputFormat cfg))
              (encodeOptionsOf cfg (getEncoder inputPath (outputFormat cfg)))) (\<lambda>outputBuffer.
     writeOutput env (getOutputPath cfg (cwd env) inputPath (outputFormat cfg)) outputBuffer))))"

definition stagesB :: "'img env \<Rightarrow> config \<Rightarrow> path \<Rightarrow> error + unit" where
  "stagesB env cfg inputPath =
     bindE (readFileSync env inputPath) (\<lambda>inputBuffer.
     bindE (fst (cropStage env cfg inputBuffer)) (\<lambda>processedBuffer.
     bindE (preprocessStage env (ingestImage env processedBuffer) (buildPreprocessOptsB cfg))
       (\<lambda>image1.
     bindE (encode env image1 (getEncoder inputPath (outputFormat cfg))
              (encodeOptionsOf cfg (getEncoder inputPath (outputFormat cfg)))) (\<lambda>outputBuffer.
     writeOutput env (getOutputPath cfg (cwd env) inputPath (outputFormat cfg)) outputBuffer))))"

subsection \<open>An example run\<close>

text \<open>
  A small environment for evaluating the definitions: the two files of the scenario of
  the specification (a 600x400 \<open>photo.png\<close> and a 200x150 \<open>icon.jpg\<close>), a file that
  cannot be decoded, a file of no bytes, a file whose output cannot be written, and paths
  that cannot be read. The codec of this
  environment answers every buffer it can decode with two bytes.
\<close>

definition photoBytes :: buffer where
  "photoBytes = [1, 2, 3, 4, 5, 6]"

definition iconBytes :: buffer where
  "iconBytes = [7, 8, 9]"

definition brokenBytes :: buffer where
  "brokenBytes = [255, 255, 255, 255, 255]"

definition exampleEnv :: "buffer env" where
  "exampleEnv =
     \<lparr>cwd = ''/work'',
      existsSync = (\<lambda>p. p = ''./jump''),
      ensureDir = (\<lambda>p. Inr ()),
      readTree = (\<lambda>p. Dir [(''a'', Dir [(''photo.png'', File), (''notes.txt'', File)]),
                           (''b'', Dir [(''icon.jpg'', File)])]),
      readFileSync = (\<lambda>p. if p = ''jump/a/photo.png'' then Inr photoBytes
                           else if p = ''jump/b/icon.jpg'' then Inr iconBytes
                           else if p = ''jump/broken.png'' then Inr brokenBytes
                           else if p = ''jump/empty.png'' then Inr []
                           else if p = ''jump/readonly/x.png'' then Inr iconBytes
                           else Inl (Error ''ENOENT'')),
      sharp_metadata = (\<lambda>b. if b = photoBytes then Inr \<lparr>md_width = Some 600, md_height = Some 400\<rparr>
                             else if b = iconBytes then Inr \<lparr>md_width = Some 200, md_height = Some 150\<rparr>
                             else if b = [] then Inr \<lparr>md_width = None, md_height = None\<rparr>
                             else Inl (Error ''unsupported image format'')),
      sharp_extract = (\<lambda>b r. Inr (take 4 b)),
      newImagePool = (\<lambda>n. Inr ()),
      closePool = Inr (),
      ingestImage = (\<lambda>b. b),
      decoded = (\<lambda>b. if b = photoBytes then Inr (600, 400)
                      else if b = brokenBytes then Inl (Error ''unsupported format'')
                      else Inr (200, 150)),
      preprocess = (\<lambda>b opts. if b = brokenBytes then Inl (Error ''unsupported format'') else Inr b),
      encode = (\<lambda>b e opts. if b = brokenBytes then Inl (Error ''unsupported format'') else Inr [0, 0]),
      writeOutput = (\<lambda>p b. if p = ''jumpCompress/readonly/x.png'' then Inl (Error ''EACCES'')
                            else Inr ())\<rparr>"

text \<open>The sizes printed on the result lines of a run: one pair for every file that succeeded.\<close>

fun successSizes :: "event list \<Rightarrow> (nat \<times> nat) list" where
  "successSizes [] = []"
| "successSizes (E_log_result i out r # evs) = (i, out) # successSizes evs"
| "successSizes (ev # evs) = successSizes evs"

section \<open>Properties\<close>

subsection \<open>The scenario of the specification\<close>

text \<open>
  The example environment holds \<open>a/photo.png\<close> (600x400) and \<open>b/icon.jpg\<close> (200x150)
  below the input directory. With a crop target of 338 the walk finds both files,
  variant B extracts the rectangle of width 338 and height 400 at offset 131 from the
  photo and nothing from the icon, both outputs are written to the mirrored paths and
  the statistics are 2 files, 2 successes and no failure.
\<close>

lemma scenario_example:
  "getImageFiles exampleEnv configB ''./jump'' = Inr [''jump/a/photo.png'', ''jump/b/icon.jpg'']
   \<and> map_sum id (\<lambda>r. (fst r, filter (\<lambda>ev. case ev of E_extract x \<Rightarrow> True | E_write q b \<Rightarrow> True | _ \<Rightarrow> False) (snd r)))
       (compressImagesB exampleEnv (configB\<lparr>crop_width := 338\<rparr>)
          [''jump/a/photo.png'', ''jump/b/icon.jpg''])
     = Inr (\<lparr>total = 2, success = 2, failed = 0, totalInputSize = 9, totalOutputSize = 4\<rparr>,
            [E_extract \<lparr>r_left = 131, r_top = 0, r_width = 338, r_height = Some 400\<rparr>,
             E_write ''jumpCompress/a/photo.png'' [0, 0],
             E_write ''jumpCompress/b/icon.jpg'' [0, 0]])"
  by code_simp

subsection \<open>Crop geometry\<close>

text \<open>
  C1. For an image of width \<open>W\<close> and a crop target \<open>T\<close>: when \<open>W > T\<close> the rectangle
  that \<open>cropImage\<close> extracts has width \<open>T\<close>, top 0, left \<open>floor((W - T) / 2)\<close> and the
  height of the image, and the crop branch of variant A computes width \<open>T\<close>, the same
  left offset and the original height when \<open>keepHeight\<close> is set (the configured resize
  height otherwise); when \<open>W \<le> T\<close> neither produces a rectangle.
\<close>

theorem C1_crop_rectangle:
  "(md_width md = Some W \<and> crop_width cfg < W \<longrightarrow>
      cropRect cfg md = Some \<lparr>r_left = (W - crop_width cfg) div 2, r_top = 0,
                              r_width = crop_width cfg, r_height = md_height md\<rparr>
      \<and> int ((W - crop_width cfg) div 2) = \<lfloor>(real W - real (crop_width cfg)) / 2\<rfloor>)
   \<and> (md_width md = Some W \<and> W \<le> crop_width cfg \<longrightarrow> cropRect cfg md = None)
   \<and> (cropOptions_enabled cfg \<and> cropOptions_width cfg < W \<longrightarrow>
      cropBranch cfg W H =
        Some \<lparr>cv_cropWidth = cropOptions_width cfg,
              cv_cropHeight = (if cropOptions_keepHeight cfg then H else resize_height cfg),
              cv_left = (W - cropOptions_width cfg) div 2\<rparr>
      \<and> int ((W - cropOptions_width cfg) div 2) = \<lfloor>(real W - real (cropOptions_width cfg)) / 2\<rfloor>)
   \<and> (W \<le> cropOptions_width cfg \<longrightarrow> cropBranch cfg W H = None)"
proof -
  have fl: "int ((W - T) div 2) = \<lfloor>(real W - real T) / 2\<rfloor>" if "T < W" for T
  proof -
    have "\<lfloor>real (W - T) / real 2\<rfloor> = int ((W - T) div 2)" by (rule floor_divide_of_nat_eq)
    moreover have "real (W - T) = real W - real T" using that by (simp add: of_nat_diff)
    ultimately show ?thesis by simp
  qed
  show ?thesis
    using fl by (simp add: cropRect_def cropBranch_def Let_def)
qed

theorem C1_crop_rectangle_witness:
  "cropRect configB \<lparr>md_width = Some 2000, md_height = Some 900\<rparr>
     = Some \<lparr>r_left = 347, r_top = 0, r_width = 1305, r_height = Some 900\<rparr>
   \<and> cropRect configB \<lparr>md_width = Some 1305, md_height = Some 900\<rparr> = None
   \<and> cropBranch configA 600 400 = Some \<lparr>cv_cropWidth = 338, cv_cropHeight = 400, cv_left = 131\<rparr>
   \<and> cropBranch configA 200 150 = None"
  using C1_crop_rectangle [of "\<lparr>md_width = Some 2000, md_height = Some 900\<rparr>" 2000 configB 400]
        C1_crop_rectangle [of "\<lparr>md_width = Some 1305, md_height = Some 900\<rparr>" 1305 configB 400]
        C1_crop_rectangle [of "\<lparr>md_width = Some 1305, md_height = Some 900\<rparr>" 600 configA 400]
        C1_crop_rectangle [of "\<lparr>md_width = Some 1305, md_height = Some 900\<rparr>" 200 configA 150]
  by (simp add: configA_def configB_def)

subsection \<open>Cropping only when the image is wider\<close>

lemma cropRect_SomeD:
  "cropRect cfg md = Some r \<Longrightarrow> \<exists>W. md_width md = Some W \<and> crop_width cfg < W"
  by (auto simp: cropRect_def split: option.splits if_splits)

lemma cropRect_None:
  "md_width md = Some W \<Longrightarrow> W \<le> crop_width cfg \<Longrightarrow> cropRect cfg md = None"
  by (simp add: cropRect_def)

lemma cropImage_extract:
  "sharp_metadata env buf = Inr md \<Longrightarrow> E_extract r \<in> set (snd (cropImage env cfg buf)) \<Longrightarrow>
   cropRect cfg md = Some r"
  by (auto simp: cropImage_def split: option.splits sum.splits)

lemma tryFileB_passthrough:
  "readFileSync env p = Inr buf \<Longrightarrow> sharp_metadata env buf = Inr md \<Longrightarrow> cropRect cfg md = None \<Longrightarrow>
   E_ingest buf \<in> set (snd (tryFileB env cfg st p)) \<and>
   (\<forall>r. E_extract r \<notin> set (snd (tryFileB env cfg st p)))"
  by (simp add: tryFileB_def cropStage_def cropImage_def catchFailure_def Let_def split: sum.splits prod.splits)

text \<open>
  C2. A crop rectangle is computed, and given to sharp's \<open>extract\<close>, only when the width
  of the image exceeds the crop target; for an image whose width is at most the target
  \<open>cropImage\<close> returns the buffer it was given, nothing is extracted and the codec
  receives the bytes that were read. In variant A the crop branch is taken only for a
  wider image.
\<close>

theorem C2_crop_only_when_wider:
  "(cropRect cfg md = Some r \<longrightarrow> (\<exists>W. md_width md = Some W \<and> crop_width cfg < W))
   \<and> (sharp_metadata env buf = Inr md \<and> E_extract r \<in> set (snd (cropImage env cfg buf)) \<longrightarrow>
        (\<exists>W. md_width md = Some W \<and> crop_width cfg < W))
   \<and> (sharp_metadata env buf = Inr md \<and> md_width md = Some W \<and> W \<le> crop_width cfg \<longrightarrow>
        cropImage env cfg buf = (Inr buf, []))
   \<and> (readFileSync env p = Inr buf \<and> sharp_metadata env buf = Inr md \<and> md_width md = Some W \<and>
       W \<le> crop_width cfg \<longrightarrow>
        E_ingest buf \<in> set (snd (tryFileB env cfg st p)) \<and>
        (\<forall>r. E_extract r \<notin> set (snd (tryFileB env cfg st p))))
   \<and> (cropBranch cfg W H = Some cv \<longrightarrow> cropOptions_width cfg < W)"
proof (intro conjI impI allI)
  assume "cropRect cfg md = Some r"
  then show "\<exists>W. md_width md = Some W \<and> crop_width cfg < W" by (rule cropRect_SomeD)
next
  assume "sharp_metadata env buf = Inr md \<and> E_extract r \<in> set (snd (cropImage env cfg buf))"
  then have "cropRect cfg md = Some r" by (auto dest: cropImage_extract)
  then show "\<exists>W. md_width md = Some W \<and> crop_width cfg < W" by (rule cropRect_SomeD)
next
  assume "sharp_metadata env buf = Inr md \<and> md_width md = Some W \<and> W \<le> crop_width cfg"
  then show "cropImage env cfg buf = (Inr buf, [])"
    by (simp add: cropImage_def cropRect_None)
next
  assume h: "readFileSync env p = Inr buf \<and> sharp_metadata env buf = Inr md \<and> md_width md = Some W \<and>
       W \<le> crop_width cfg"
  then have "cropRect cfg md = None" by (simp add: cropRect_None)
  with h tryFileB_passthrough [of env p buf md cfg st]
  show "E_ingest buf \<in> set (snd (tryFileB env cfg st p))" by blast
next
  fix ra
  assume h: "readFileSync env p = Inr buf \<and> sharp_metadata env buf = Inr md \<and> md_width md = Some W \<and>
       W \<le> crop_width cfg"
  then have "cropRect cfg md = None" by (simp add: cropRect_None)
  with h tryFileB_passthrough [of env p buf md cfg st]
  show "E_extract ra \<notin> set (snd (tryFileB env cfg st p))" by blast
next
  assume "cropBranch cfg W H = Some cv"
  then show "cropOptions_width cfg < W" by (simp add: cropBranch_def split: if_splits)
qed

theorem C2_crop_only_when_wider_witness:
  "cropImage exampleEnv configB iconBytes = (Inr iconBytes, [])
   \<and> E_ingest iconBytes \<in> set (snd (tryFileB exampleEnv configB (initialStats []) ''jump/b/icon.jpg''))
   \<and> (\<exists>W. md_width \<lparr>md_width = Some 2000, md_height = Some 900\<rparr> = Some W \<and> crop_width configB < W)
   \<and> cropOptions_width configA < 600"
proof -
  let ?md = "\<lparr>md_width = Some 200, md_height = Some 150\<rparr>"
  let ?big = "\<lparr>md_width = Some 2000, md_height = Some 900\<rparr>"
  let ?r = "\<lparr>r_left = 347, r_top = 0, r_width = 1305, r_height = Some 900\<rparr>"
  let ?cv = "\<lparr>cv_cropWidth = 338, cv_cropHeight = 400, cv_left = 131\<rparr>"
  have h1: "readFileSync exampleEnv ''jump/b/icon.jpg'' = Inr iconBytes" by code_simp
  have h2: "sharp_metadata exampleEnv iconBytes = Inr ?md" by code_simp
  have h3: "md_width ?md = Some 200 \<and> 200 \<le> crop_width configB" by code_simp
  have h4: "cropRect configB ?big = Some ?r" by code_simp
  have h5: "cropBranch configA 600 400 = Some ?cv" by code_simp
  from C2_crop_only_when_wider [where cfg = configB and md = ?md and env = exampleEnv
      and buf = iconBytes and W = 200 and p = "''jump/b/icon.jpg''" and st = "initialStats []"] h1 h2 h3
  have a: "cropImage exampleEnv configB iconBytes = (Inr iconBytes, [])
   \<and> E_ingest iconBytes \<in> set (snd (tryFileB exampleEnv configB (initialStats []) ''jump/b/icon.jpg''))"
    by blast
  from C2_crop_only_when_wider [where cfg = configB and md = ?big and r = ?r] h4
  have b: "\<exists>W. md_width ?big = Some W \<and> crop_width configB < W" by blast
  from C2_crop_only_when_wider [where cfg = configA and W = 600 and H = 400 and cv = ?cv] h5
  have c: "cropOptions_width configA < 600" by blast
  from a b c show ?thesis by blast
qed

subsection \<open>Counting successes and failures\<close>

lemma not_isl_unit: "(\<not> isl (x :: 'e + unit)) = (x = Inr ())"
  by (cases x) auto

lemma tryFileA_counts:
  "total (fst (tryFileA env cfg st p)) = total st \<and>
   success (fst (tryFileA env cfg st p)) = success st + (if isl (stagesA env cfg p) then 0 else 1) \<and>
   failed (fst (tryFileA env cfg st p)) = failed st + (if isl (stagesA env cfg p) then 1 else 0)"
  by (simp add: tryFileA_def stagesA_def bindE_def catchFailure_def Let_def split: sum.splits prod.splits)

lemma tryFileB_counts:
  "total (fst (tryFileB env cfg st p)) = total st \<and>
   success (fst (tryFileB env cfg st p)) = success st + (if isl (stagesB env cfg p) then 0 else 1) \<and>
   failed (fst (tryFileB env cfg st p)) = failed st + (if isl (stagesB env cfg p) then 1 else 0)"
  by (simp add: tryFileB_def stagesB_def bindE_def catchFailure_def Let_def split: sum.splits prod.splits)

lemma iterationA_Inr:
  "iterationA env cfg st p = Inr r \<Longrightarrow> r = tryFileA env cfg st p"
  by (simp add: iterationA_def Let_def split: sum.splits)

lemma iterationA_pool_ok:
  "newImagePool env (maxConcurrent cfg) = Inr () \<Longrightarrow> closePool env = Inr () \<Longrightarrow>
   iterationA env cfg st p = Inr (tryFileA env cfg st p)"
  by (simp add: iterationA_def)

lemma loopA_counts:
  "loopA env cfg st ps = Inr (st', evs) \<Longrightarrow>
   total st' = total st \<and>
   success st' = success st + length (filter (\<lambda>p. \<not> isl (stagesA env cfg p)) ps) \<and>
   failed st' = failed st + length (filter (\<lambda>p. isl (stagesA env cfg p)) ps)"
proof (induction ps arbitrary: st st' evs)
  case Nil
  then show ?case by simp
next
  case (Cons p ps)
  from Cons.prems obtain st1 ev1 st2 ev2 where
    it: "iterationA env cfg st p = Inr (st1, ev1)" and
    lp: "loopA env cfg st1 ps = Inr (st2, ev2)" and
    eq: "st' = st2"
    by (auto split: sum.splits prod.splits)
  from iterationA_Inr [OF it] have st1: "st1 = fst (tryFileA env cfg st p)"
    by (metis fst_conv)
  from Cons.IH [OF lp] tryFileA_counts [of env cfg st p] show ?case
    by (simp add: eq st1)
qed

lemma loopA_total:
  "newImagePool env (maxConcurrent cfg) = Inr () \<Longrightarrow> closePool env = Inr () \<Longrightarrow>
   \<exists>r. loopA env cfg st ps = Inr r"
proof (induction ps arbitrary: st)
  case Nil
  then show ?case by simp
next
  case (Cons p ps)
  obtain st1 ev1 where t: "tryFileA env cfg st p = (st1, ev1)" by (cases "tryFileA env cfg st p")
  from Cons.IH [OF Cons.prems, of st1] obtain r where "loopA env cfg st1 ps = Inr r" by blast
  then show ?case
    by (cases r) (simp add: iterationA_pool_ok [OF Cons.prems] t)
qed

lemma loopB_counts:
  "loopB env cfg st ps = (st', evs) \<Longrightarrow>
   total st' = total st \<and>
   success st' = success st + length (filter (\<lambda>p. \<not> isl (stagesB env cfg p)) ps) \<and>
   failed st' = failed st + length (filter (\<lambda>p. isl (stagesB env cfg p)) ps)"
proof (induction ps arbitrary: st st' evs)
  case Nil
  then show ?case by simp
next
  case (Cons p ps)
  from Cons.prems obtain st1 ev1 st2 ev2 where
    it: "tryFileB env cfg st p = (st1, ev1)" and
    lp: "loopB env cfg st1 ps = (st2, ev2)" and
    eq: "st' = st2"
    by (auto split: prod.splits)
  from it have st1: "st1 = fst (tryFileB env cfg st p)" by simp
  from Cons.IH [OF lp] tryFileB_counts [of env cfg st p] show ?case
    by (simp add: eq st1)
qed

lemma filter_partition_length:
  "length (filter (\<lambda>p. \<not> P p) ps) + length (filter P ps) = length ps"
  by (induction ps) auto

lemma compressImagesB_Inr:
  "compressImagesB env cfg fs = Inr r \<Longrightarrow> r = loopB env cfg (initialStats fs) fs"
  by (simp add: compressImagesB_def Let_def split: sum.splits)

lemma compressImagesB_pool_ok:
  "newImagePool env (maxConcurrent cfg) = Inr () \<Longrightarrow> closePool env = Inr () \<Longrightarrow>
   compressImagesB env cfg fs = Inr (loopB env cfg (initialStats fs) fs)"
  by (simp add: compressImagesB_def)

text \<open>
  C10. The statistics that \<open>compressImages\<close> returns have \<open>total\<close> equal to the length of
  the file list and \<open>success + failed = total\<close>; each file adds one to exactly one of the
  two counters. \<open>compressImages\<close> does return when the image pool can be created and
  closed.
\<close>

theorem C10_counts:
  "(compressImagesA env cfg imageFiles = Inr (st, evs) \<longrightarrow>
      total st = length imageFiles \<and> success st + failed st = total st)
   \<and> (compressImagesB env cfg imageFiles = Inr (st, evs) \<longrightarrow>
      total st = length imageFiles \<and> success st + failed st = total st)
   \<and> (newImagePool env (maxConcurrent cfg) = Inr () \<and> closePool env = Inr () \<longrightarrow>
      (\<exists>r. compressImagesA env cfg imageFiles = Inr r) \<and>
      (\<exists>r. compressImagesB env cfg imageFiles = Inr r))
   \<and> (success (fst (tryFileA env cfg s p)) = success s + 1 \<and> failed (fst (tryFileA env cfg s p)) = failed s
      \<or> success (fst (tryFileA env cfg s p)) = success s \<and> failed (fst (tryFileA env cfg s p)) = failed s + 1)
   \<and> (success (fst (tryFileB env cfg s p)) = success s + 1 \<and> failed (fst (tryFileB env cfg s p)) = failed s
      \<or> success (fst (tryFileB env cfg s p)) = success s \<and> failed (fst (tryFileB env cfg s p)) = failed s + 1)"
proof -
  have a: "total st = length imageFiles \<and> success st + failed st = total st"
    if "compressImagesA env cfg imageFiles = Inr (st, evs)"
    using loopA_counts [of env cfg "initialStats imageFiles" imageFiles st evs] that
      filter_partition_length [of "\<lambda>p. isl (stagesA env cfg p)" imageFiles]
    by (simp add: compressImagesA_def initialStats_def)
  have b: "total st = length imageFiles \<and> success st + failed st = total st"
    if "compressImagesB env cfg imageFiles = Inr (st, evs)"
    using loopB_counts [of env cfg "initialStats imageFiles" imageFiles st evs]
      compressImagesB_Inr [OF that]
      filter_partition_length [of "\<lambda>p. isl (stagesB env cfg p)" imageFiles]
    by (simp add: initialStats_def)
  have c: "(\<exists>r. compressImagesA env cfg imageFiles = Inr r) \<and>
      (\<exists>r. compressImagesB env cfg imageFiles = Inr r)"
    if "newImagePool env (maxConcurrent cfg) = Inr ()" "closePool env = Inr ()"
    using loopA_total [OF that] compressImagesB_pool_ok [OF that]
    by (simp add: compressImagesA_def)
  show ?thesis
    using a b c tryFileA_counts [of env cfg s p] tryFileB_counts [of env cfg s p]
    by (simp split: if_splits)
qed

theorem C10_counts_witness:
  "\<exists>st evs. compressImagesA exampleEnv configA [''jump/a/photo.png'', ''jump/broken.png''] = Inr (st, evs)
      \<and> total st = 2 \<and> success st + failed st = 2"
proof -
  let ?fs = "[''jump/a/photo.png'', ''jump/broken.png'']"
  have pool: "newImagePool exampleEnv (maxConcurrent configA) = Inr () \<and> closePool exampleEnv = Inr ()"
    by (simp add: exampleEnv_def)
  with C10_counts [of exampleEnv configA ?fs]
  obtain r where "compressImagesA exampleEnv configA ?fs = Inr r" by blast
  then obtain st evs where r: "compressImagesA exampleEnv configA ?fs = Inr (st, evs)"
    by (cases r) auto
  with C10_counts [of exampleEnv configA ?fs st evs]
  have "total st = 2 \<and> success st + failed st = 2" by simp
  with r show ?thesis by blast
qed

subsection \<open>One failing file does not stop the batch\<close>

lemma stagesA_okD:
  "\<not> isl (stagesA env cfg p) \<Longrightarrow>
   \<exists>buf w h img out.
     readFileSync env p = Inr buf \<and>
     decoded env (ingestImage env buf) = Inr (w, h) \<and>
     preprocessStage env (ingestImage env buf) (fst (buildPreprocessOptsA cfg w h)) = Inr img \<and>
     encode env img (getEncoder p (outputFormat cfg))
       (encodeOptionsOf cfg (getEncoder p (outputFormat cfg))) = Inr out \<and>
     writeOutput env (getOutputPath cfg (cwd env) p (outputFormat cfg)) out = Inr ()"
  by (auto simp: stagesA_def bindE_def Let_def not_isl_unit split: sum.splits)

lemma stagesB_okD:
  "\<not> isl (stagesB env cfg p) \<Longrightarrow>
   \<exists>buf pbuf img out.
     readFileSync env p = Inr buf \<and>
     fst (cropStage env cfg buf) = Inr pbuf \<and>
     preprocessStage env (ingestImage env pbuf) (buildPreprocessOptsB cfg) = Inr img \<and>
     encode env img (getEncoder p (outputFormat cfg))
       (encodeOptionsOf cfg (getEncoder p (outputFormat cfg))) = Inr out \<and>
     writeOutput env (getOutputPath cfg (cwd env) p (outputFormat cfg)) out = Inr ()"
  by (auto simp: stagesB_def bindE_def Let_def not_isl_unit split: sum.splits)

lemma tryFileA_writes:
  assumes "\<not> isl (stagesA env cfg p)"
  shows "\<exists>b. E_write (getOutputPath cfg (cwd env) p (outputFormat cfg)) b \<in> set (snd (tryFileA env cfg st p))"
proof -
  from stagesA_okD [OF assms] obtain buf w h img out where
    "readFileSync env p = Inr buf"
    "decoded env (ingestImage env buf) = Inr (w, h)"
    "preprocessStage env (ingestImage env buf) (fst (buildPreprocessOptsA cfg w h)) = Inr img"
    "encode env img (getEncoder p (outputFormat cfg))
       (encodeOptionsOf cfg (getEncoder p (outputFormat cfg))) = Inr out"
    "writeOutput env (getOutputPath cfg (cwd env) p (outputFormat cfg)) out = Inr ()"
    by blast
  then have "E_write (getOutputPath cfg (cwd env) p (outputFormat cfg)) out
      \<in> set (snd (tryFileA env cfg st p))"
    by (simp add: tryFileA_def Let_def)
  then show ?thesis ..
qed

lemma tryFileB_writes:
  assumes "\<not> isl (stagesB env cfg p)"
  shows "\<exists>b. E_write (getOutputPath cfg (cwd env) p (outputFormat cfg)) b \<in> set (snd (tryFileB env cfg st p))"
proof -
  from stagesB_okD [OF assms] obtain buf pbuf img out where
    "readFileSync env p = Inr buf"
    "fst (cropStage env cfg buf) = Inr pbuf"
    "preprocessStage env (ingestImage env pbuf) (buildPreprocessOptsB cfg) = Inr img"
    "encode env img (getEncoder p (outputFormat cfg))
       (encodeOptionsOf cfg (getEncoder p (outputFormat cfg))) = Inr out"
    "writeOutput env (getOutputPath cfg (cwd env) p (outputFormat cfg)) out = Inr ()"
    by blast
  then have "E_write (getOutputPath cfg (cwd env) p (outputFormat cfg)) out
      \<in> set (snd (tryFileB env cfg st p))"
    by (simp add: tryFileB_def Let_def)
  then show ?thesis ..
qed

lemma loopA_writes:
  "loopA env cfg st ps = Inr (st', evs) \<Longrightarrow> p \<in> set ps \<Longrightarrow> \<not> isl (stagesA env cfg p) \<Longrightarrow>
   \<exists>b. E_write (getOutputPath cfg (cwd env) p (outputFormat cfg)) b \<in> set evs"
proof (induction ps arbitrary: st st' evs)
  case Nil
  then show ?case by simp
next
  case (Cons q ps)
  from Cons.prems(1) obtain st1 ev1 st2 ev2 where
    it: "iterationA env cfg st q = Inr (st1, ev1)" and
    lp: "loopA env cfg st1 ps = Inr (st2, ev2)" and
    eq: "evs = ev1 @ ev2"
    by (auto split: sum.splits prod.splits)
  from iterationA_Inr [OF it] have ev1: "ev1 = snd (tryFileA env cfg st q)"
    by (metis snd_conv)
  show ?case
  proof (cases "p = q")
    case True
    with tryFileA_writes [OF Cons.prems(3), of st] show ?thesis
      by (auto simp: eq ev1)
  next
    case False
    with Cons.prems(2) have "p \<in> set ps" by simp
    from Cons.IH [OF lp this Cons.prems(3)] show ?thesis
      by (auto simp: eq)
  qed
qed

lemma loopB_writes:
  "loopB env cfg st ps = (st', evs) \<Longrightarrow> p \<in> set ps \<Longrightarrow> \<not> isl (stagesB env cfg p) \<Longrightarrow>
   \<exists>b. E_write (getOutputPath cfg (cwd env) p (outputFormat cfg)) b \<in> set evs"
proof (induction ps arbitrary: st st' evs)
  case Nil
  then show ?case by simp
next
  case (Cons q ps)
  from Cons.prems(1) obtain st1 ev1 st2 ev2 where
    it: "tryFileB env cfg st q = (st1, ev1)" and
    lp: "loopB env cfg st1 ps = (st2, ev2)" and
    eq: "evs = ev1 @ ev2"
    by (auto split: prod.splits)
  from it have ev1: "ev1 = snd (tryFileB env cfg st q)" by simp
  show ?case
  proof (cases "p = q")
    case True
    with tryFileB_writes [OF Cons.prems(3), of st] show ?thesis
      by (auto simp: eq ev1)
  next
    case False
    with Cons.prems(2) have "p \<in> set ps" by simp
    from Cons.IH [OF lp this Cons.prems(3)] show ?thesis
      by (auto simp: eq)
  qed
qed

text \<open>
  C5. When exactly one file of the list fails at one of its stages (read, crop, decode,
  preprocess, encode or write), the batch still returns, reports one failure and
  \<open>N - 1\<close> successes, and has written the output of every other file.
\<close>

theorem C5_failure_isolation:
  "(newImagePool env (maxConcurrent cfg) = Inr () \<and> closePool env = Inr () \<and>
    length (filter (\<lambda>p. isl (stagesA env cfg p)) imageFiles) = 1 \<longrightarrow>
      (\<exists>st evs. compressImagesA env cfg imageFiles = Inr (st, evs) \<and>
         success st = length imageFiles - 1 \<and> failed st = 1 \<and>
         (\<forall>p \<in> set imageFiles. \<not> isl (stagesA env cfg p) \<longrightarrow>
            (\<exists>b. E_write (getOutputPath cfg (cwd env) p (outputFormat cfg)) b \<in> set evs))))
   \<and> (newImagePool env (maxConcurrent cfg) = Inr () \<and> closePool env = Inr () \<and>
    length (filter (\<lambda>p. isl (stagesB env cfg p)) imageFiles) = 1 \<longrightarrow>
      (\<exists>st evs. compressImagesB env cfg imageFiles = Inr (st, evs) \<and>
         success st = length imageFiles - 1 \<and> failed st = 1 \<and>
         (\<forall>p \<in> set imageFiles. \<not> isl (stagesB env cfg p) \<longrightarrow>
            (\<exists>b. E_write (getOutputPath cfg (cwd env) p (outputFormat cfg)) b \<in> set evs))))"
proof (intro conjI impI)
  assume h: "newImagePool env (maxConcurrent cfg) = Inr () \<and> closePool env = Inr () \<and>
    length (filter (\<lambda>p. isl (stagesA env cfg p)) imageFiles) = 1"
  then obtain r where "loopA env cfg (initialStats imageFiles) imageFiles = Inr r"
    using loopA_total by blast
  then obtain st evs where r: "loopA env cfg (initialStats imageFiles) imageFiles = Inr (st, evs)"
    by (cases r) auto
  from loopA_counts [OF r] h filter_partition_length [of "\<lambda>p. isl (stagesA env cfg p)" imageFiles]
  have "success st = length imageFiles - 1 \<and> failed st = 1"
    by (simp add: initialStats_def)
  with r loopA_writes [OF r]
  show "\<exists>st evs. compressImagesA env cfg imageFiles = Inr (st, evs) \<and>
         success st = length imageFiles - 1 \<and> failed st = 1 \<and>
         (\<forall>p \<in> set imageFiles. \<not> isl (stagesA env cfg p) \<longrightarrow>
            (\<exists>b. E_write (getOutputPath cfg (cwd env) p (outputFormat cfg)) b \<in> set evs))"
    unfolding compressImagesA_def by blast
next
  assume h: "newImagePool env (maxConcurrent cfg) = Inr () \<and> closePool env = Inr () \<and>
    length (filter (\<lambda>p. isl (stagesB env cfg p)) imageFiles) = 1"
  obtain st evs where r: "loopB env cfg (initialStats imageFiles) imageFiles = (st, evs)"
    by (cases "loopB env cfg (initialStats imageFiles) imageFiles")
  from h have c: "compressImagesB env cfg imageFiles = Inr (st, evs)"
    by (simp add: compressImagesB_pool_ok r)
  from loopB_counts [OF r] h filter_partition_length [of "\<lambda>p. isl (stagesB env cfg p)" imageFiles]
  have "success st = length imageFiles - 1 \<and> failed st = 1"
    by (simp add: initialStats_def)
  with c loopB_writes [OF r]
  show "\<exists>st evs. compressImagesB env cfg imageFiles = Inr (st, evs) \<and>
         success st = length imageFiles - 1 \<and> failed st = 1 \<and>
         (\<forall>p \<in> set imageFiles. \<not> isl (stagesB env cfg p) \<longrightarrow>
            (\<exists>b. E_write (getOutputPath cfg (cwd env) p (outputFormat cfg)) b \<in> set evs))"
    by blast
qed

theorem C5_failure_isolation_witness:
  "(\<exists>st evs. compressImagesA exampleEnv configA
        [''jump/a/photo.png'', ''jump/broken.png'', ''jump/b/icon.jpg''] = Inr (st, evs)
      \<and> success st = 2 \<and> failed st = 1
      \<and> (\<exists>b. E_write ''jumpCompress/b/icon.jpg'' b \<in> set evs))
   \<and> (\<exists>st evs. compressImagesB exampleEnv configB
        [''jump/a/photo.png'', ''jump/broken.png'', ''jump/b/icon.jpg''] = Inr (st, evs)
      \<and> success st = 2 \<and> failed st = 1
      \<and> (\<exists>b. E_write ''jumpCompress/b/icon.jpg'' b \<in> set evs))"
proof -
  let ?fs = "[''jump/a/photo.png'', ''jump/broken.png'', ''jump/b/icon.jpg'']"
  have poolA: "newImagePool exampleEnv (maxConcurrent configA) = Inr () \<and> closePool exampleEnv = Inr ()"
    by (simp add: exampleEnv_def)
  have poolB: "newImagePool exampleEnv (maxConcurrent configB) = Inr () \<and> closePool exampleEnv = Inr ()"
    by (simp add: exampleEnv_def)
  have oneA: "length (filter (\<lambda>p. isl (stagesA exampleEnv configA p)) ?fs) = 1"
    by code_simp
  have oneB: "length (filter (\<lambda>p. isl (stagesB exampleEnv configB p)) ?fs) = 1"
    by code_simp
  have okA: "\<not> isl (stagesA exampleEnv configA ''jump/b/icon.jpg'')" by code_simp
  have okB: "\<not> isl (stagesB exampleEnv configB ''jump/b/icon.jpg'')" by code_simp
  have outA: "getOutputPath configA (cwd exampleEnv) ''jump/b/icon.jpg'' (outputFormat configA)
      = ''jumpCompress/b/icon.jpg''" by code_simp
  have outB: "getOutputPath configB (cwd exampleEnv) ''jump/b/icon.jpg'' (outputFormat configB)
      = ''jumpCompress/b/icon.jpg''" by code_simp
  from C5_failure_isolation [of exampleEnv configA ?fs] poolA oneA
  obtain st evs where a: "compressImagesA exampleEnv configA ?fs = Inr (st, evs)"
    "success st = length ?fs - 1" "failed st = 1"
    "\<forall>p \<in> set ?fs. \<not> isl (stagesA exampleEnv configA p) \<longrightarrow>
       (\<exists>b. E_write (getOutputPath configA (cwd exampleEnv) p (outputFormat configA)) b \<in> set evs)"
    by blast
  from a(4) okA outA have "\<exists>b. E_write ''jumpCompress/b/icon.jpg'' b \<in> set evs"
    by (metis list.set_intros(1,2))
  with a have A: "\<exists>st evs. compressImagesA exampleEnv configA ?fs = Inr (st, evs)
      \<and> success st = 2 \<and> failed st = 1
      \<and> (\<exists>b. E_write ''jumpCompress/b/icon.jpg'' b \<in> set evs)"
    by auto
  from C5_failure_isolation [of exampleEnv configB ?fs] poolB oneB
  obtain st evs where b: "compressImagesB exampleEnv configB ?fs = Inr (st, evs)"
    "success st = length ?fs - 1" "failed st = 1"
    "\<forall>p \<in> set ?fs. \<not> isl (stagesB exampleEnv configB p) \<longrightarrow>
       (\<exists>b. E_write (getOutputPath configB (cwd exampleEnv) p (outputFormat configB)) b \<in> set evs)"
    by blast
  from b(4) okB outB have "\<exists>b. E_write ''jumpCompress/b/icon.jpg'' b \<in> set evs"
    by (metis list.set_intros(1,2))
  with b have B: "\<exists>st evs. compressImagesB exampleEnv configB ?fs = Inr (st, evs)
      \<and> success st = 2 \<and> failed st = 1
      \<and> (\<exists>b. E_write ''jumpCompress/b/icon.jpg'' b \<in> set evs)"
    by auto
  from A B show ?thesis by blast
qed

subsection \<open>Variant A resizes instead of cropping\<close>






subsection \<open>Exit codes\<close>

text \<open>
  C9. The process ends with code 1 and without any step on the file system when the input
  directory does not exist; with code 0 when no image file is found and when
  \<open>compressImages\<close> returns, whatever the number of failed files (it returns whenever the
  image pool can be created and closed); with code 1 when \<open>ensureDir\<close>, the directory
  walk or \<open>compressImages\<close> throws.
\<close>

theorem C9_exit_codes:
  "(\<not> existsSync env (inputDir cfg) \<longrightarrow> main compress env cfg = (1, []))
   \<and> (existsSync env (inputDir cfg) \<and> ensureDir env (outputDir cfg) = Inr () \<and>
       getImageFiles env cfg (inputDir cfg) = Inr [] \<longrightarrow> fst (main compress env cfg) = 0)
   \<and> (existsSync env (inputDir cfg) \<and> ensureDir env (outputDir cfg) = Inr () \<and>
       getImageFiles env cfg (inputDir cfg) = Inr imageFiles \<and> compress env cfg imageFiles = Inr r
         \<longrightarrow> fst (main compress env cfg) = 0)
   \<and> (existsSync env (inputDir cfg) \<and> ensureDir env (outputDir cfg) = Inr () \<and>
       getImageFiles env cfg (inputDir cfg) = Inr imageFiles \<and>
       newImagePool env (maxConcurrent cfg) = Inr () \<and> closePool env = Inr ()
         \<longrightarrow> fst (main compressImagesA env cfg) = 0 \<and> fst (main compressImagesB env cfg) = 0)
   \<and> (existsSync env (inputDir cfg) \<and>
       (isl (ensureDir env (outputDir cfg)) \<or> isl (getImageFiles env cfg (inputDir cfg)) \<or>
        (getImageFiles env cfg (inputDir cfg) = Inr imageFiles \<and> imageFiles \<noteq> [] \<and>
         isl (compress env cfg imageFiles)))
         \<longrightarrow> fst (main compress env cfg) = 1)"
proof -
  have pool: "(\<exists>ra. compressImagesA env cfg imageFiles = Inr ra) \<and> (\<exists>rb. compressImagesB env cfg imageFiles = Inr rb)"
    if "newImagePool env (maxConcurrent cfg) = Inr ()" "closePool env = Inr ()"
    using loopA_total [OF that] compressImagesB_pool_ok [OF that]
    by (simp add: compressImagesA_def)
  show ?thesis
    using pool
    by (auto simp: main_def split: sum.splits)
qed

theorem C9_exit_codes_witness:
  "main compressImagesA (exampleEnv\<lparr>existsSync := (\<lambda>p. False)\<rparr>) configA = (1, [])
   \<and> fst (main compressImagesA (exampleEnv\<lparr>readTree := (\<lambda>p. Dir [(''notes.txt'', File)])\<rparr>) configA) = 0
   \<and> fst (main compressImagesA
        (exampleEnv\<lparr>readTree := (\<lambda>p. Dir [(''a'', Dir [(''photo.png'', File)]), (''broken.png'', File)])\<rparr>)
        configA) = 0
   \<and> fst (main compressImagesB
        (exampleEnv\<lparr>readTree := (\<lambda>p. Dir [(''a'', Dir [(''photo.png'', File)]), (''broken.png'', File)])\<rparr>)
        configB) = 0
   \<and> fst (main compressImagesB (exampleEnv\<lparr>readTree := (\<lambda>p. Dir [(''a'', Unreadable)])\<rparr>) configB) = 1"
proof -
  let ?e1 = "exampleEnv\<lparr>existsSync := (\<lambda>p. False)\<rparr>"
  let ?e2 = "exampleEnv\<lparr>readTree := (\<lambda>p. Dir [(''notes.txt'', File)])\<rparr>"
  let ?e3 = "exampleEnv\<lparr>readTree := (\<lambda>p. Dir [(''a'', Dir [(''photo.png'', File)]), (''broken.png'', File)])\<rparr>"
  let ?e4 = "exampleEnv\<lparr>readTree := (\<lambda>p. Dir [(''a'', Unreadable)])\<rparr>"
  let ?fs = "[''jump/a/photo.png'', ''jump/broken.png'']"
  have h1: "\<not> existsSync ?e1 (inputDir configA)" by code_simp
  have h2: "existsSync ?e2 (inputDir configA) \<and> ensureDir ?e2 (outputDir configA) = Inr () \<and>
      getImageFiles ?e2 configA (inputDir configA) = Inr []" by code_simp
  have h3: "existsSync ?e3 (inputDir configA) \<and> ensureDir ?e3 (outputDir configA) = Inr () \<and>
      getImageFiles ?e3 configA (inputDir configA) = Inr ?fs \<and>
      newImagePool ?e3 (maxConcurrent configA) = Inr () \<and> closePool ?e3 = Inr ()" by code_simp
  have h4: "existsSync ?e3 (inputDir configB) \<and> ensureDir ?e3 (outputDir configB) = Inr () \<and>
      getImageFiles ?e3 configB (inputDir configB) = Inr ?fs \<and>
      newImagePool ?e3 (maxConcurrent configB) = Inr () \<and> closePool ?e3 = Inr ()" by code_simp
  have h5: "existsSync ?e4 (inputDir configB) \<and> isl (getImageFiles ?e4 configB (inputDir configB))"
    by code_simp
  have a: "main compressImagesA ?e1 configA = (1, [])"
    using C9_exit_codes [where env = ?e1 and cfg = configA and compress = compressImagesA] h1
    by blast
  have b: "fst (main compressImagesA ?e2 configA) = 0"
    using C9_exit_codes [where env = ?e2 and cfg = configA and compress = compressImagesA] h2
    by blast
  have c: "fst (main compressImagesA ?e3 configA) = 0"
    using C9_exit_codes [where env = ?e3 and cfg = configA and imageFiles = ?fs] h3
    by blast
  have d: "fst (main compressImagesB ?e3 configB) = 0"
    using C9_exit_codes [where env = ?e3 and cfg = configB and imageFiles = ?fs] h4
    by blast
  have e: "fst (main compressImagesB ?e4 configB) = 1"
    using C9_exit_codes [where env = ?e4 and cfg = configB and compress = compressImagesB] h5
    by blast
  from a b c d e show ?thesis by blast
qed

subsection \<open>Byte totals and the printed reduction\<close>

text \<open>
  C4. The totals are not the sums over the files that succeeded. In the example run
  \<open>photo.png\<close> (6 bytes in, 2 out) succeeds, \<open>broken.png\<close> (5 bytes) fails after it was
  read and \<open>readonly/x.png\<close> (3 bytes in, 2 out) fails when it is written: the totals are
  14 and 4, the sums over the one success are 6 and 2.
\<close>

theorem C4_totals_count_failed_files:
  "map_sum id (\<lambda>r. (fst r, successSizes (snd r)))
     (compressImagesA exampleEnv configA [''jump/a/photo.png'', ''jump/broken.png'', ''jump/readonly/x.png''])
   = Inr (\<lparr>total = 3, success = 1, failed = 2, totalInputSize = 14, totalOutputSize = 4\<rparr>, [(6, 2)])
   \<and> map_sum id (\<lambda>r. (fst r, successSizes (snd r)))
     (compressImagesB exampleEnv configB [''jump/a/photo.png'', ''jump/broken.png'', ''jump/readonly/x.png''])
   = Inr (\<lparr>total = 3, success = 1, failed = 2, totalInputSize = 14, totalOutputSize = 4\<rparr>, [(6, 2)])"
  by code_simp


subsection \<open>The output path mirrors the input path\<close>

text \<open>The examples of Node's documentation for the path functions, on the model.\<close>

lemma path_examples:
  "extname ''a/b.tar.gz'' = ''.gz'' \<and> extname ''.bashrc'' = [] \<and> extname ''a.'' = ''.''
   \<and> parse ''/home/user/dir/file.txt''
       = \<lparr>p_root = ''/'', p_dir = ''/home/user/dir'', p_base = ''file.txt'', p_ext = ''.txt'',
          p_name = ''file''\<rparr>
   \<and> relative ''/'' ''/data/orandea/test/aaa'' ''/data/orandea/impl/bbb'' = ''../../impl/bbb''
   \<and> join [''/foo'', ''bar'', ''baz/asdf'', ''quux'', ''..''] = ''/foo/bar/baz/asdf''
   \<and> normalize ''/foo/bar//baz/asdf/quux/..'' = ''/foo/bar/baz/asdf''
   \<and> resolve ''/home/myself/node'' ''wwwroot'' = [''home'', ''myself'', ''node'', ''wwwroot'']"
  by code_simp

lemma split_slash_ne [simp]: "split_slash s \<noteq> []"
  by (induction s) (auto split: list.splits)

lemma split_slash_elems: "x \<in> set (split_slash s) \<Longrightarrow> CHR ''/'' \<notin> set x"
  by (induction s arbitrary: x) (auto split: if_splits list.splits)

lemma split_slash_append: "split_slash (a @ CHR ''/'' # b) = split_slash a @ split_slash b"
  by (induction a) (auto split: list.splits)

lemma split_slash_single: "CHR ''/'' \<notin> set s \<Longrightarrow> split_slash s = [s]"
  by (induction s) (auto split: list.splits)

lemma join_slash_snoc: "ds \<noteq> [] \<Longrightarrow> join_slash (ds @ [b]) = join_slash ds @ CHR ''/'' # b"
  by (induction ds rule: join_slash.induct) auto

lemma join_slash_Cons: "ds \<noteq> [] \<Longrightarrow> join_slash (d # ds) = d @ CHR ''/'' # join_slash ds"
  by (cases ds) auto

lemma split_join_concat:
  "parts \<noteq> [] \<Longrightarrow> split_slash (join_slash parts) = concat (map split_slash parts)"
  by (induction parts rule: join_slash.induct) (auto simp: split_slash_append)

lemma split_join:
  "segs \<noteq> [] \<Longrightarrow> \<forall>s\<in>set segs. CHR ''/'' \<notin> set s \<Longrightarrow> split_slash (join_slash segs) = segs"
  by (induction segs rule: join_slash.induct) (auto simp: split_slash_append split_slash_single)

lemma norm_step_Nil [simp]: "norm_step a res [] = res"
  by (simp add: norm_step_def)

lemma norm_step_plain: "plain seg \<Longrightarrow> norm_step a res seg = res @ [seg]"
  by (simp add: norm_step_def plain_def)

lemma foldl_norm_plain: "\<forall>s\<in>set ys. plain s \<Longrightarrow> foldl (norm_step a) acc ys = acc @ ys"
  by (induction ys arbitrary: acc) (auto simp: norm_step_plain)

lemma norm_step_keeps_plain:
  "\<forall>s\<in>set res. plain s \<Longrightarrow> \<forall>s\<in>set (norm_step False res seg). plain s"
  by (auto simp: norm_step_def plain_def dest: in_set_butlastD)

lemma foldl_norm_keeps_plain:
  "\<forall>s\<in>set acc. plain s \<Longrightarrow> \<forall>s\<in>set (foldl (norm_step False) acc xs). plain s"
proof (induction xs arbitrary: acc)
  case Nil
  then show ?case by simp
next
  case (Cons x xs)
  from norm_step_keeps_plain [OF Cons.prems] have "\<forall>s\<in>set (norm_step False acc x). plain s" .
  from Cons.IH [OF this] show ?case by simp
qed

lemma norm_step_keeps_slashfree:
  "\<forall>s\<in>set res. CHR ''/'' \<notin> set s \<Longrightarrow> CHR ''/'' \<notin> set seg \<Longrightarrow>
   \<forall>s\<in>set (norm_step a res seg). CHR ''/'' \<notin> set s"
  by (auto simp: norm_step_def dest: in_set_butlastD)

lemma foldl_norm_keeps_slashfree:
  "\<forall>s\<in>set acc. CHR ''/'' \<notin> set s \<Longrightarrow> \<forall>s\<in>set xs. CHR ''/'' \<notin> set s \<Longrightarrow>
   \<forall>s\<in>set (foldl (norm_step a) acc xs). CHR ''/'' \<notin> set s"
proof (induction xs arbitrary: acc)
  case Nil
  then show ?case by simp
next
  case (Cons x xs)
  from Cons.prems have "\<forall>s\<in>set (norm_step a acc x). CHR ''/'' \<notin> set s"
    by (intro norm_step_keeps_slashfree) auto
  from Cons.IH [OF this] Cons.prems(2) show ?case by simp
qed

lemma norm_step_keeps_kept:
  "\<forall>s\<in>set res. kept s \<Longrightarrow> \<forall>s\<in>set (norm_step a res seg). kept s"
  by (auto simp: norm_step_def kept_def dest: in_set_butlastD)

lemma foldl_norm_keeps_kept:
  "\<forall>s\<in>set acc. kept s \<Longrightarrow> \<forall>s\<in>set (foldl (norm_step a) acc xs). kept s"
proof (induction xs arbitrary: acc)
  case Nil
  then show ?case by simp
next
  case (Cons x xs)
  from norm_step_keeps_kept [OF Cons.prems] have "\<forall>s\<in>set (norm_step a acc x). kept s" .
  from Cons.IH [OF this] show ?case by simp
qed

lemma norm_twice_step:
  assumes "\<forall>s\<in>set r. kept s"
  shows "foldl (norm_step False) B (norm_step True r x) = norm_step False (foldl (norm_step False) B r) x"
proof (cases "x = ''..'' \<and> r \<noteq> [] \<and> last r \<noteq> ''..''")
  case True
  then obtain r' c where r: "r = r' @ [c]" and c: "c \<noteq> ''..''"
    by (metis append_butlast_last_id)
  from assms r have "kept c" by simp
  with c have pc: "plain c" by (simp add: kept_def plain_def)
  from True r have l: "norm_step True r x = r'" by (simp add: norm_step_def)
  have "norm_step False (foldl (norm_step False) B r) x
      = norm_step False (foldl (norm_step False) B r' @ [c]) ''..''"
    using True by (simp add: r norm_step_plain [OF pc])
  also have "\<dots> = foldl (norm_step False) B r'"
    using c by (simp add: norm_step_def)
  finally show ?thesis by (simp add: l)
next
  case False
  then have "norm_step True r x = r \<or> norm_step True r x = r @ [x]"
    by (auto simp: norm_step_def)
  then show ?thesis
  proof
    assume e: "norm_step True r x = r"
    with False have "x = [] \<or> x = ''.''" by (auto simp: norm_step_def split: if_splits)
    then show ?thesis by (auto simp: e norm_step_def)
  next
    assume "norm_step True r x = r @ [x]"
    then show ?thesis by simp
  qed
qed

lemma norm_twice:
  "foldl (norm_step False) B (foldl (norm_step True) [] xs) = foldl (norm_step False) B xs"
proof (induction xs rule: rev_induct)
  case Nil
  then show ?case by simp
next
  case (snoc x xs)
  have k: "\<forall>s\<in>set (foldl (norm_step True) [] xs). kept s"
    by (rule foldl_norm_keeps_kept) simp
  show ?case
    by (simp add: norm_twice_step [OF k] snoc.IH)
qed

lemma norm_idem:
  "foldl (norm_step False) [] (foldl (norm_step False) [] xs) = foldl (norm_step False) [] xs"
proof -
  have "\<forall>s\<in>set (foldl (norm_step False) [] xs). plain s"
    by (rule foldl_norm_keeps_plain) simp
  from foldl_norm_plain [OF this] show ?thesis by simp
qed

lemma resolve_eq:
  assumes "isAbsolute wd"
  shows "resolve wd p =
    foldl (norm_step False) (if isAbsolute p then [] else cwdBase wd) (split_slash p)"
proof -
  have e: "split_slash (x @ ''/'') = split_slash x @ [[]]" for x
    using split_slash_append [of x "[]"] by simp
  have r: "split_slash (wd @ CHR ''/'' # p @ ''/'') = split_slash wd @ split_slash p @ [[]]"
    using split_slash_append [of wd "p @ ''/''"] e [of p] by simp
  show ?thesis
    using assms by (simp add: resolve_def normalizeString_def cwdBase_def e r isAbsolute_def)
qed

lemma resolve_plain:
  assumes "isAbsolute wd"
  shows "\<forall>s\<in>set (resolve wd p). segment s"
proof -
  have b: "\<forall>s\<in>set (cwdBase wd). plain s" unfolding cwdBase_def
    by (rule foldl_norm_keeps_plain) simp
  have b': "\<forall>s\<in>set (cwdBase wd). CHR ''/'' \<notin> set s" unfolding cwdBase_def
    by (rule foldl_norm_keeps_slashfree) (auto dest: split_slash_elems)
  have 1: "\<forall>s\<in>set (resolve wd p). plain s"
    unfolding resolve_eq [OF assms] using b by (intro foldl_norm_keeps_plain) auto
  have 2: "\<forall>s\<in>set (resolve wd p). CHR ''/'' \<notin> set s"
    unfolding resolve_eq [OF assms] using b'
    by (intro foldl_norm_keeps_slashfree) (auto dest: split_slash_elems)
  from 1 2 show ?thesis by (simp add: segment_def)
qed

lemma strip_common_prefix: "strip_common xs (xs @ ys) = ([], ys)"
proof (induction xs)
  case Nil
  show ?case by (cases ys) simp_all
next
  case (Cons x xs)
  then show ?case by simp
qed

lemma relative_below:
  "resolve wd p = resolve wd r @ rel \<Longrightarrow> relative wd r p = join_slash rel"
  by (simp add: relative_def strip_common_prefix)

lemma foldl_norm_filter:
  "foldl (norm_step a) acc (concat (map split_slash (filter (\<lambda>x. x \<noteq> []) xs)))
   = foldl (norm_step a) acc (concat (map split_slash xs))"
  by (induction xs arbitrary: acc) auto

lemma join_slash_hd:
  "segs \<noteq> [] \<Longrightarrow> hd segs \<noteq> [] \<Longrightarrow> hd (join_slash segs) = hd (hd segs)"
  by (induction segs rule: join_slash.induct) auto

lemma join_slash_Nil_iff:
  "\<forall>s\<in>set segs. s \<noteq> [] \<Longrightarrow> (join_slash segs = []) = (segs = [])"
  by (induction segs rule: join_slash.induct) auto

lemma join_slash_last:
  "b \<noteq> [] \<Longrightarrow> last (join_slash (xs @ [b])) = last b"
  by (cases "xs = []") (auto simp: join_slash_snoc)

lemma join_slash_not_absolute:
  assumes "\<forall>s\<in>set segs. s \<noteq> [] \<and> CHR ''/'' \<notin> set s"
  shows "\<not> isAbsolute (join_slash segs)"
proof (cases segs)
  case Nil
  then show ?thesis by (simp add: isAbsolute_def)
next
  case (Cons s ss)
  with assms have "s \<noteq> []" "CHR ''/'' \<notin> set s" by auto
  then have "hd s \<noteq> CHR ''/''" by (cases s) auto
  with Cons \<open>s \<noteq> []\<close> join_slash_hd [of segs] show ?thesis
    by (simp add: isAbsolute_def)
qed

lemma norm_join3:
  assumes "\<forall>s\<in>set (ds @ [b]). segment s"
  shows "foldl (norm_step a) acc
           (split_slash (join_slash (filter (\<lambda>x. x \<noteq> []) [out, join_slash ds, b])))
         = foldl (norm_step a) acc (split_slash out) @ ds @ [b]"
proof -
  from assms have b: "b \<noteq> []" "CHR ''/'' \<notin> set b" by (auto simp: segment_def plain_def)
  from assms have pl: "\<forall>s\<in>set (ds @ [b]). plain s" by (simp add: segment_def)
  have sd: "foldl (norm_step a) X (split_slash (join_slash ds)) = X @ ds" for X
  proof (cases "ds = []")
    case True
    then show ?thesis by simp
  next
    case False
    with assms have "split_slash (join_slash ds) = ds"
      by (intro split_join) (auto simp: segment_def)
    with pl show ?thesis by (simp add: foldl_norm_plain)
  qed
  have ne: "filter (\<lambda>x. x \<noteq> []) [out, join_slash ds, b] \<noteq> []" using b by simp
  have "foldl (norm_step a) acc
           (split_slash (join_slash (filter (\<lambda>x. x \<noteq> []) [out, join_slash ds, b])))
        = foldl (norm_step a) acc (concat (map split_slash [out, join_slash ds, b]))"
    by (simp only: split_join_concat [OF ne] foldl_norm_filter)
  also have "\<dots> = foldl (norm_step a) acc (split_slash out) @ ds @ [b]"
    using b pl by (simp add: sd split_slash_single norm_step_plain)
  finally show ?thesis .
qed

lemma join3_absolute:
  assumes "\<forall>s\<in>set (ds @ [b]). segment s"
  shows "isAbsolute (join_slash (filter (\<lambda>x. x \<noteq> []) [out, join_slash ds, b])) = isAbsolute out"
proof (cases "out = []")
  case True
  from assms have "\<not> isAbsolute (join_slash (ds @ [b]))"
    by (intro join_slash_not_absolute) (auto simp: segment_def plain_def)
  moreover from assms have "join_slash (filter (\<lambda>x. x \<noteq> []) [join_slash ds, b]) = join_slash (ds @ [b])"
    by (cases "ds = []") (auto simp: join_slash_snoc join_slash_Nil_iff segment_def plain_def)
  ultimately show ?thesis using True by (simp add: isAbsolute_def)
next
  case False
  from assms have "b \<noteq> []" by (simp add: segment_def plain_def)
  with False show ?thesis
    by (cases out) (auto simp: isAbsolute_def)
qed

lemma join3_last:
  assumes "b \<noteq> []"
  shows "last (join_slash (filter (\<lambda>x. x \<noteq> []) [out, d, b])) = last b"
proof -
  have "filter (\<lambda>x. x \<noteq> []) [out, d, b] = filter (\<lambda>x. x \<noteq> []) [out, d] @ [b]"
    using assms by simp
  then show ?thesis using join_slash_last [OF assms] by simp
qed

lemma join3_eq:
  assumes "\<forall>s\<in>set (ds @ [b]). segment s"
  shows "join [out, join_slash ds, b] =
     (if isAbsolute out then ''/'' else [])
     @ join_slash (foldl (norm_step (\<not> isAbsolute out)) [] (split_slash out) @ ds @ [b])"
proof -
  define parts where "parts = filter (\<lambda>x. x \<noteq> []) [out, join_slash ds, b]"
  from assms have b: "b \<noteq> []" "CHR ''/'' \<notin> set b" by (auto simp: segment_def plain_def)
  have ne: "parts \<noteq> []" using b by (simp add: parts_def)
  have l: "last (join_slash parts) = last b"
    unfolding parts_def by (rule join3_last [OF b(1)])
  then have nl: "last (join_slash parts) \<noteq> CHR ''/''" using b by (metis last_in_set)
  have "\<forall>s\<in>set parts. s \<noteq> []" by (simp add: parts_def)
  from join_slash_Nil_iff [OF this] ne have sne: "join_slash parts \<noteq> []" by simp
  have n: "foldl (norm_step a) [] (split_slash (join_slash parts))
      = foldl (norm_step a) [] (split_slash out) @ ds @ [b]" for a
    unfolding parts_def by (rule norm_join3 [OF assms])
  have ab: "isAbsolute (join_slash parts) = isAbsolute out"
    unfolding parts_def by (rule join3_absolute [OF assms])
  have "join [out, join_slash ds, b] = normalize (join_slash parts)"
    unfolding join_def Let_def parts_def [symmetric] using ne by simp
  also have "\<dots> = (if isAbsolute out then ''/'' else [])
     @ join_slash (foldl (norm_step (\<not> isAbsolute out)) [] (split_slash out) @ ds @ [b])"
    using sne nl by (simp add: normalize_def Let_def normalizeString_def n ab)
  finally show ?thesis .
qed

lemma resolve_join3:
  assumes w: "isAbsolute wd" and segs: "\<forall>s\<in>set (ds @ [b]). segment s"
  shows "resolve wd (join [out, join_slash ds, b]) = resolve wd out @ ds @ [b]"
proof -
  let ?a = "\<not> isAbsolute out"
  let ?X = "foldl (norm_step ?a) [] (split_slash out)"
  let ?segs = "?X @ ds @ [b]"
  have X1: "\<forall>s\<in>set ?X. kept s" by (rule foldl_norm_keeps_kept) simp
  have X2: "\<forall>s\<in>set ?X. CHR ''/'' \<notin> set s"
    by (rule foldl_norm_keeps_slashfree) (auto dest: split_slash_elems)
  from segs have pl: "\<forall>s\<in>set (ds @ [b]). plain s" by (simp add: segment_def)
  have all: "\<forall>s\<in>set ?segs. s \<noteq> [] \<and> CHR ''/'' \<notin> set s"
    using X1 X2 segs by (auto simp: kept_def segment_def plain_def)
  then have sl: "\<forall>s\<in>set ?segs. CHR ''/'' \<notin> set s" by blast
  have sj: "split_slash (join_slash ?segs) = ?segs"
    by (rule split_join [OF _ sl]) simp
  have na: "\<not> isAbsolute (join_slash ?segs)"
    by (rule join_slash_not_absolute [OF all])
  show ?thesis
  proof (cases "isAbsolute out")
    case True
    then have j: "join [out, join_slash ds, b] = CHR ''/'' # join_slash ?segs"
      using join3_eq [OF segs, of out] by simp
    have ab: "isAbsolute (CHR ''/'' # join_slash ?segs)" by (simp add: isAbsolute_def)
    have "resolve wd (CHR ''/'' # join_slash ?segs) = foldl (norm_step False) [] ([] # ?segs)"
      by (simp add: resolve_eq [OF w] ab sj del: foldl_append)
    also have "\<dots> = foldl (norm_step False) [] ?segs" by simp
    also have "\<dots> = foldl (norm_step False) (foldl (norm_step False) [] ?X) (ds @ [b])"
      by (simp only: foldl_append)
    also have "\<dots> = foldl (norm_step False) [] ?X @ ds @ [b]"
      by (rule foldl_norm_plain [OF pl])
    also have "foldl (norm_step False) [] ?X = resolve wd out"
      using True by (simp add: resolve_eq [OF w] norm_idem)
    finally show ?thesis by (simp add: j)
  next
    case False
    then have j: "join [out, join_slash ds, b] = join_slash ?segs"
      using join3_eq [OF segs, of out] by simp
    have "resolve wd (join_slash ?segs) = foldl (norm_step False) (cwdBase wd) ?segs"
      using na by (simp add: resolve_eq [OF w] sj del: foldl_append)
    also have "\<dots> = foldl (norm_step False) (foldl (norm_step False) (cwdBase wd) ?X) (ds @ [b])"
      by (simp only: foldl_append)
    also have "\<dots> = foldl (norm_step False) (cwdBase wd) ?X @ ds @ [b]"
      by (rule foldl_norm_plain [OF pl])
    also have "foldl (norm_step False) (cwdBase wd) ?X = resolve wd out"
      using False by (simp add: resolve_eq [OF w] norm_twice)
    finally show ?thesis by (simp add: j)
  qed
qed

lemma strip_trailing_id: "s \<noteq> [] \<Longrightarrow> last s \<noteq> CHR ''/'' \<Longrightarrow> strip_trailing s = s"
proof -
  assume "s \<noteq> []" "last s \<noteq> CHR ''/''"
  then obtain xs x where s: "s = xs @ [x]" and x: "x \<noteq> CHR ''/''"
    by (metis append_butlast_last_id)
  then show ?thesis by (simp add: strip_trailing_def)
qed

lemma takeWhile_ne_all: "a \<notin> set xs \<Longrightarrow> takeWhile (\<lambda>c. c \<noteq> a) xs = xs"
  by (induction xs) auto

lemma takeWhile_ne_app: "a \<notin> set xs \<Longrightarrow> takeWhile (\<lambda>c. c \<noteq> a) (xs @ a # ys) = xs"
  by (induction xs) auto

lemma dropWhile_ne_app: "a \<notin> set xs \<Longrightarrow> dropWhile (\<lambda>c. c \<noteq> a) (xs @ a # ys) = a # ys"
  by (induction xs) auto

lemma last_segment_id: "CHR ''/'' \<notin> set b \<Longrightarrow> last_segment b = b"
  by (simp add: last_segment_def takeWhile_ne_all)

lemma last_segment_after: "CHR ''/'' \<notin> set b \<Longrightarrow> last_segment (x @ CHR ''/'' # b) = b"
  by (simp add: last_segment_def takeWhile_ne_app)

lemma before_last_segment_after:
  "CHR ''/'' \<notin> set b \<Longrightarrow> before_last_segment (x @ CHR ''/'' # b) = x"
  by (simp add: before_last_segment_def dropWhile_ne_app)

lemma join_dir_base:
  assumes "\<forall>s\<in>set (ds @ [b]). segment s"
  shows "join_slash (filter (\<lambda>x. x \<noteq> []) [join_slash ds, b]) = join_slash (ds @ [b])"
  using assms
  by (cases "ds = []") (auto simp: join_slash_snoc join_slash_Nil_iff segment_def plain_def)

lemma parse_join:
  assumes "\<forall>s\<in>set (ds @ [b]). segment s"
  shows "parse (join_slash (ds @ [b])) =
    \<lparr>p_root = [], p_dir = join_slash ds, p_base = b,
     p_ext = snd (split_ext b), p_name = fst (split_ext b)\<rparr>"
proof -
  let ?p = "join_slash (ds @ [b])"
  from assms have b: "b \<noteq> []" "CHR ''/'' \<notin> set b" by (auto simp: segment_def plain_def)
  have na: "\<not> isAbsolute ?p"
    using assms by (intro join_slash_not_absolute) (auto simp: segment_def plain_def)
  have l: "last ?p = last b" by (rule join_slash_last [OF b(1)])
  then have nl: "last ?p \<noteq> CHR ''/''" using b by (metis last_in_set)
  have ne: "?p \<noteq> []" using b by (cases "ds = []") (auto simp: join_slash_snoc)
  have st: "strip_trailing ?p = ?p" by (rule strip_trailing_id [OF ne nl])
  show ?thesis
  proof (cases "ds = []")
    case True
    then have p: "?p = b" by simp
    from st na p have "strip_trailing b = b" "\<not> isAbsolute b" by simp_all
    then show ?thesis
      using b True by (simp add: parse_def Let_def last_segment_id)
  next
    case False
    then have p: "?p = join_slash ds @ CHR ''/'' # b" by (rule join_slash_snoc)
    from st na p have "strip_trailing (join_slash ds @ CHR ''/'' # b) = join_slash ds @ CHR ''/'' # b"
      "\<not> isAbsolute (join_slash ds @ CHR ''/'' # b)" by simp_all
    then show ?thesis
      using b by (simp add: parse_def Let_def p last_segment_after before_last_segment_after)
  qed
qed

lemma split_ext_name:
  assumes "b \<noteq> []" "CHR ''/'' \<notin> set b"
  shows "fst (split_ext b) \<noteq> [] \<and> CHR ''/'' \<notin> set (fst (split_ext b))"
proof -
  have "set (rev (tl (dropWhile (\<lambda>c. c \<noteq> CHR ''.'') (rev b)))) \<subseteq> set b"
    by (metis list.set_sel(2) set_dropWhileD set_rev subsetI tl_Nil)
  with assms show ?thesis
    by (auto simp: split_ext_def Let_def)
qed

lemma split_ext_dot:
  assumes "n \<noteq> []" "rest \<noteq> []" "CHR ''.'' \<notin> set rest"
  shows "split_ext (n @ CHR ''.'' # rest) = (n, CHR ''.'' # rest)"
proof -
  have r: "rev (n @ CHR ''.'' # rest) = rev rest @ CHR ''.'' # rev n" by simp
  have t: "takeWhile (\<lambda>c. c \<noteq> CHR ''.'') (rev rest @ CHR ''.'' # rev n) = rev rest"
    using assms(3) by (simp add: takeWhile_ne_app)
  have d: "dropWhile (\<lambda>c. c \<noteq> CHR ''.'') (rev rest @ CHR ''.'' # rev n) = CHR ''.'' # rev n"
    using assms(3) by (simp add: dropWhile_ne_app)
  have nd: "n @ CHR ''.'' # rest \<noteq> ''..''"
    using assms(1,2) by (cases n; cases rest) auto
  show ?thesis
    unfolding split_ext_def Let_def r t d using assms(1) nd by simp
qed

lemma override_segment:
  assumes "segment b" "ov \<noteq> []" "CHR ''/'' \<notin> set ov" "ov \<noteq> ''.''"
  shows "segment (fst (split_ext b) @ ov)"
proof -
  from assms(1) have "b \<noteq> []" "CHR ''/'' \<notin> set b" by (auto simp: segment_def plain_def)
  from split_ext_name [OF this] obtain c cs where n: "fst (split_ext b) = c # cs"
    and s: "CHR ''/'' \<notin> set (fst (split_ext b))"
    by (cases "fst (split_ext b)") auto
  from assms(2) obtain d ds where o: "ov = d # ds" by (cases ov) auto
  from assms(4) o have "d \<noteq> CHR ''.'' \<or> ds \<noteq> []" by auto
  then have "plain (c # cs @ d # ds)" by (cases cs) (auto simp: plain_def)
  with s assms(3) show ?thesis by (simp add: segment_def n o)
qed

lemma below_split:
  assumes "below wd rt p"
  obtains ds b where "resolve wd p = resolve wd rt @ ds @ [b]"
proof -
  let ?r = "resolve wd rt" and ?q = "resolve wd p"
  from assms have l: "length ?r < length ?q" and t: "take (length ?r) ?q = ?r"
    by (simp_all add: below_def Let_def)
  have q: "?q = ?r @ drop (length ?r) ?q" using t by (metis append_take_drop_id)
  from l have "drop (length ?r) ?q \<noteq> []" by simp
  then obtain ds b where "drop (length ?r) ?q = ds @ [b]" by (metis append_butlast_last_id)
  with q have "?q = ?r @ ds @ [b]" by simp
  then show ?thesis by (rule that)
qed

lemma below_append:
  "resolve wd q = resolve wd rt @ ds @ [b] \<Longrightarrow> below wd rt q"
  by (simp add: below_def Let_def)

lemma getOutputPath_below:
  assumes w: "isAbsolute wd"
    and r: "resolve wd P = resolve wd (inputDir cfg) @ ds @ [b]"
  shows "getOutputPath cfg wd P cf =
     join [outputDir cfg, join_slash ds,
           (if truthy cf then fst (split_ext b) @ the cf else b)]"
    and "\<forall>s\<in>set (ds @ [b]). segment s"
    and "relative wd (inputDir cfg) P = join_slash (ds @ [b])"
proof -
  from resolve_plain [OF w, of P] r show segs: "\<forall>s\<in>set (ds @ [b]). segment s" by simp
  from r show rel: "relative wd (inputDir cfg) P = join_slash (ds @ [b])"
    by (rule relative_below)
  show "getOutputPath cfg wd P cf =
     join [outputDir cfg, join_slash ds,
           (if truthy cf then fst (split_ext b) @ the cf else b)]"
    by (simp add: getOutputPath_def Let_def rel parse_join [OF segs])
qed

lemma extname_join3:
  assumes segs: "\<forall>s\<in>set (ds @ [b]). segment s"
  shows "extname (join [out, join_slash ds, b]) = snd (split_ext b)"
proof -
  let ?X = "foldl (norm_step (\<not> isAbsolute out)) [] (split_slash out)"
  let ?pre = "(if isAbsolute out then ''/'' else [])"
  from segs have b: "b \<noteq> []" "CHR ''/'' \<notin> set b" by (auto simp: segment_def plain_def)
  have j: "join [out, join_slash ds, b] = ?pre @ join_slash ((?X @ ds) @ [b])"
    using join3_eq [OF segs, of out] by simp
  have "\<exists>x. ?pre @ join_slash ((?X @ ds) @ [b]) = x @ b \<and> (x = [] \<or> last x = CHR ''/'')"
  proof (cases "?X @ ds = []")
    case True
    then show ?thesis by (cases "isAbsolute out") simp_all
  next
    case False
    from join_slash_snoc [OF this, of b]
    have "?pre @ join_slash ((?X @ ds) @ [b]) = (?pre @ join_slash (?X @ ds) @ ''/'') @ b" by simp
    then show ?thesis by (metis last_snoc append_assoc)
  qed
  then obtain x where x: "join [out, join_slash ds, b] = x @ b" and xl: "x = [] \<or> last x = CHR ''/''"
    using j by auto
  have st: "strip_trailing (x @ b) = x @ b"
    using b by (intro strip_trailing_id) (auto dest: last_in_set)
  have ls: "last_segment (x @ b) = b"
  proof (cases "x = []")
    case True
    with b show ?thesis by (simp add: last_segment_id)
  next
    case False
    with xl obtain y where "x = y @ ''/''" by (metis append_butlast_last_id)
    with last_segment_after [OF b(2), of y] show ?thesis by simp
  qed
  show ?thesis by (simp add: extname_def x st ls)
qed

text \<open>
  C7. For every file \<open>P\<close> below the input root and every output root, the path that
  \<open>getOutputPath\<close> returns lies below the output root, and its path relative to the
  output root is the path of \<open>P\<close> relative to the input root, with the extension replaced
  when there is an override. The depth of \<open>P\<close> below the input root plays no role. The
  working directory is absolute, as \<open>process.cwd()\<close> is.
\<close>

theorem C7_output_path_mirrors:
  "isAbsolute wd \<and> below wd (inputDir cfg) P \<and> overrideOk cf \<longrightarrow>
     below wd (outputDir cfg) (getOutputPath cfg wd P cf) \<and>
     relative wd (outputDir cfg) (getOutputPath cfg wd P cf)
       = withOverride cf (relative wd (inputDir cfg) P)"
proof
  assume h: "isAbsolute wd \<and> below wd (inputDir cfg) P \<and> overrideOk cf"
  then have w: "isAbsolute wd" by simp
  from h obtain ds b where r: "resolve wd P = resolve wd (inputDir cfg) @ ds @ [b]"
    by (blast elim: below_split)
  note g = getOutputPath_below [OF w r]
  define b' where "b' = (if truthy cf then fst (split_ext b) @ the cf else b)"
  from g(2) have sb: "segment b" by simp
  have sb': "segment b'"
  proof (cases "truthy cf")
    case True
    then obtain ov where cf: "cf = Some ov" and ov: "ov \<noteq> []"
      by (auto simp: truthy_def split: option.splits)
    with h have "CHR ''/'' \<notin> set ov" "ov \<noteq> ''.''" by (simp_all add: overrideOk_def)
    from override_segment [OF sb ov this] True cf show ?thesis by (simp add: b'_def)
  next
    case False
    with sb show ?thesis by (simp add: b'_def)
  qed
  with g(2) have segs': "\<forall>s\<in>set (ds @ [b']). segment s" by simp
  have out: "getOutputPath cfg wd P cf = join [outputDir cfg, join_slash ds, b']"
    using g(1) [of cf] by (simp add: b'_def)
  have res: "resolve wd (getOutputPath cfg wd P cf) = resolve wd (outputDir cfg) @ ds @ [b']"
    unfolding out by (rule resolve_join3 [OF w segs'])
  have 1: "below wd (outputDir cfg) (getOutputPath cfg wd P cf)"
    using res by (rule below_append)
  have "withOverride cf (join_slash (ds @ [b])) = join_slash (ds @ [b'])"
  proof (cases "truthy cf")
    case True
    have pj: "p_dir (parse (join_slash (ds @ [b]))) = join_slash ds"
      "p_name (parse (join_slash (ds @ [b]))) = fst (split_ext b)"
      by (simp_all add: parse_join [OF g(2)])
    have "withOverride cf (join_slash (ds @ [b]))
        = join_slash (filter (\<lambda>x. x \<noteq> []) [join_slash ds, b'])"
      unfolding withOverride_def Let_def pj b'_def by (simp only: True if_True)
    with join_dir_base [OF segs'] show ?thesis by simp
  next
    case False
    then show ?thesis by (simp add: withOverride_def b'_def)
  qed
  with relative_below [OF res] g(3)
  have 2: "relative wd (outputDir cfg) (getOutputPath cfg wd P cf)
       = withOverride cf (relative wd (inputDir cfg) P)"
    by simp
  from 1 2 show "below wd (outputDir cfg) (getOutputPath cfg wd P cf) \<and>
     relative wd (outputDir cfg) (getOutputPath cfg wd P cf)
       = withOverride cf (relative wd (inputDir cfg) P)" ..
qed

theorem C7_output_path_mirrors_witness:
  "below ''/work'' (outputDir configA) (getOutputPath configA ''/work'' ''jump/a/photo.png'' None)
   \<and> getOutputPath configA ''/work'' ''jump/a/photo.png'' None = ''jumpCompress/a/photo.png''
   \<and> relative ''/work'' (outputDir configA) (getOutputPath configA ''/work'' ''jump/a/photo.png'' None)
       = ''a/photo.png''
   \<and> relative ''/work'' (outputDir configA) (getOutputPath configA ''/work'' ''jump/icon.jpg'' (Some ''.webp''))
       = ''icon.webp''"
proof -
  have h1: "isAbsolute ''/work'' \<and> below ''/work'' (inputDir configA) ''jump/a/photo.png'' \<and> overrideOk None"
    by code_simp
  have h2: "isAbsolute ''/work'' \<and> below ''/work'' (inputDir configA) ''jump/icon.jpg''
      \<and> overrideOk (Some ''.webp'')"
    by code_simp
  have v1: "withOverride None (relative ''/work'' (inputDir configA) ''jump/a/photo.png'') = ''a/photo.png''"
    by code_simp
  have v2: "withOverride (Some ''.webp'') (relative ''/work'' (inputDir configA) ''jump/icon.jpg'') = ''icon.webp''"
    by code_simp
  have v3: "getOutputPath configA ''/work'' ''jump/a/photo.png'' None = ''jumpCompress/a/photo.png''"
    by code_simp
  from C7_output_path_mirrors [of "''/work''" configA "''jump/a/photo.png''" None] h1 v1
  have a: "below ''/work'' (outputDir configA) (getOutputPath configA ''/work'' ''jump/a/photo.png'' None)
    \<and> relative ''/work'' (outputDir configA) (getOutputPath configA ''/work'' ''jump/a/photo.png'' None)
       = ''a/photo.png''"
    by simp
  from C7_output_path_mirrors [of "''/work''" configA "''jump/icon.jpg''" "Some ''.webp''"] h2 v2
  have b: "relative ''/work'' (outputDir configA)
      (getOutputPath configA ''/work'' ''jump/icon.jpg'' (Some ''.webp'')) = ''icon.webp''"
    by simp
  from a b v3 show ?thesis by blast
qed

text \<open>
  C8, as amended. For every file below the input root and every override that is a dot
  followed by one or more characters other than the dot and the separator, the
  extension of the path that \<open>getOutputPath\<close> returns is the override, whatever the
  extension of the input file was.
\<close>

theorem C8_override_extension:
  "isAbsolute wd \<and> below wd (inputDir cfg) P \<and> isExtension ov \<longrightarrow>
     extname (getOutputPath cfg wd P (Some ov)) = ov"
proof
  assume h: "isAbsolute wd \<and> below wd (inputDir cfg) P \<and> isExtension ov"
  then have w: "isAbsolute wd" by simp
  from h obtain rest where ov: "ov = CHR ''.'' # rest" and rest: "rest \<noteq> []"
    "CHR ''.'' \<notin> set rest" "CHR ''/'' \<notin> set rest"
    by (auto simp: isExtension_def split: list.splits)
  from h obtain ds b where r: "resolve wd P = resolve wd (inputDir cfg) @ ds @ [b]"
    by (blast elim: below_split)
  note g = getOutputPath_below [OF w r]
  from g(2) have sb: "segment b" by simp
  then have "b \<noteq> []" "CHR ''/'' \<notin> set b" by (auto simp: segment_def plain_def)
  from split_ext_name [OF this] have n: "fst (split_ext b) \<noteq> []" by simp
  have t: "truthy (Some ov)" by (simp add: truthy_def ov)
  have "segment (fst (split_ext b) @ ov)"
    using rest by (intro override_segment [OF sb]) (auto simp: ov)
  with g(2) have segs': "\<forall>s\<in>set (ds @ [fst (split_ext b) @ ov]). segment s" by simp
  have out: "getOutputPath cfg wd P (Some ov) = join [outputDir cfg, join_slash ds, fst (split_ext b) @ ov]"
    using g(1) [of "Some ov"] t by simp
  have "extname (getOutputPath cfg wd P (Some ov)) = snd (split_ext (fst (split_ext b) @ ov))"
    unfolding out by (rule extname_join3 [OF segs'])
  also have "\<dots> = ov"
    using split_ext_dot [OF n rest(1,2)] by (simp add: ov)
  finally show "extname (getOutputPath cfg wd P (Some ov)) = ov" .
qed

theorem C8_override_extension_witness:
  "extname (getOutputPath configA ''/work'' ''jump/a/photo.png'' (Some ''.webp'')) = ''.webp''"
proof -
  have "isAbsolute ''/work'' \<and> below ''/work'' (inputDir configA) ''jump/a/photo.png'' \<and> isExtension ''.webp''"
    by code_simp
  with C8_override_extension [of "''/work''" configA "''jump/a/photo.png''" "''.webp''"]
  show ?thesis by blast
qed

text \<open>
  C8 as stated fails for an override without a leading dot: the override is appended to
  the name as it is, and the result \<open>photowebp\<close> has no extension.
\<close>

theorem C8_override_counterexample:
  "getOutputPath configA ''/work'' ''jump/a/photo.png'' (Some ''webp'') = ''jumpCompress/a/photowebp''
   \<and> extname (getOutputPath configA ''/work'' ''jump/a/photo.png'' (Some ''webp'')) \<noteq> ''webp''"
  by code_simp

end
